theory Spec2Isabelle
  imports Main
begin

section \<open>Errors and outcomes\<close>

text \<open>
  Go errors are values.  Every \<^verbatim>\<open>fmt.Errorf\<close> of the sources has its own constructor,
  carrying the formatted arguments and, for \<^verbatim>\<open>%w\<close>, the wrapped error.  Errors produced
  by collaborators outside the sources (the schema library, the cluster client, Helm) are
  \<open>External\<close>.  \<open>Joined\<close> is the value built by \<^verbatim>\<open>errors.Join\<close>.
\<close>

datatype err =
    External string
  | Joined "err list"
  | ParsingReleaseObjects string err
  | ConvertingToUnstructured string err
  | ConvertingToCRD err
  | GettingExistingCRD string err
  | ValidatingUpgradeFailed string err
  | CrossVersionValidationFailed string err
  | CalculatingSchemaDiff string string
  | FieldChange string string string err
  | UnknownChange string string string
  | UnexpectedReleaseState string
  | GettingManagedObjects err
  | NilClusterExtension
  | FetchingBundles err
  | FetchingInstalledBundle err
  | InvalidVersionRange string err
  | NoPackageFound "string option" string "string option" "string option"
  | ValidatingResolvedBundle err

text \<open>
  A Go call either returns or panics (a nil pointer dereference).  \<open>Panics\<close> is the
  run-time panic, \<open>Returns\<close> the returned value; an \<^verbatim>\<open>error\<close> result is an
  \<open>err option\<close> with \<open>None\<close> for \<^verbatim>\<open>nil\<close>.
\<close>

datatype 'a outcome = Panics | Returns 'a

text \<open>
  \<^verbatim>\<open>errors.Join\<close> returns nil when it is given no non-nil error and otherwise one error
  wrapping all of them in order.  Every list joined in the sources holds only errors made
  by \<^verbatim>\<open>fmt.Errorf\<close>, so there are no nil elements to discard.
\<close>

definition errors_Join :: "err list \<Rightarrow> err option" where
  "errors_Join errs = (if errs = [] then None else Some (Joined errs))"

section \<open>Custom resource definitions and the schema library\<close>

text \<open>
  A version of a CRD: \<open>Schema\<close> is the pointer \<^verbatim>\<open>Schema\<close> of the Go type followed to
  its \<^verbatim>\<open>OpenAPIV3Schema\<close>; \<open>None\<close> is the nil \<^verbatim>\<open>Schema\<close> pointer, whose dereference
  panics.  The schema itself is opaque to the sources (type \<open>'s\<close>).
\<close>

record 's CustomResourceDefinitionVersion =
  Name :: string
  Schema :: "'s option"

record 's CustomResourceDefinition =
  metadata_Name :: string
  spec_Versions :: "'s CustomResourceDefinitionVersion list"

text \<open>
  A change validation receives a field diff, whose old and new descriptors are pointers:
  it may rewrite them, and the next validation sees what it left.  So a validation returns
  the diff as it leaves it, the \<^verbatim>\<open>handled\<close> flag and the error.
\<close>

type_synonym 'd ChangeValidation = "'d \<Rightarrow> 'd \<times> bool \<times> err option"

datatype ChangeValidationName =
    EnumChangeValidation
  | RequiredFieldChangeValidation
  | MaximumChangeValidation
  | MaximumItemsChangeValidation
  | MaximumLengthChangeValidation
  | MaximumPropertiesChangeValidation
  | MinimumChangeValidation
  | MinimumItemsChangeValidation
  | MinimumLengthChangeValidation
  | MinimumPropertiesChangeValidation
  | DefaultValueChangeValidation

datatype Validation =
    NoScopeChange
  | NoStoredVersionRemoved
  | NoExistingFieldRemoved
  | ChangeValidator "ChangeValidationName list"

text \<open>
  The functions of the external schema library \<^verbatim>\<open>kappcus\<close> that the sources call.
  They are not part of the sources and stay parameters: \<open>'f\<close> is a flattened schema,
  \<open>'d\<close> a field diff.  \<^verbatim>\<open>CalculateFlatSchemaDiff\<close> returns a Go map; the list is that map
  in the order the \<^verbatim>\<open>range\<close> statement happens to visit it.
\<close>

record ('s, 'f, 'd, 'c) kappcus =
  FlattenSchema :: "'s \<Rightarrow> 'f"
  CalculateFlatSchemaDiff :: "'f \<Rightarrow> 'f \<Rightarrow> err + (string \<times> 'd) list"
  ChangeValidationFunc :: "ChangeValidationName \<Rightarrow> 'd ChangeValidation"
  Validator_Validate :: "Validation list \<Rightarrow> 'c \<Rightarrow> 'c \<Rightarrow> err option"

section \<open>The cross-version validator\<close>

record 'd crossVersionValidator =
  changeValidations :: "'d ChangeValidation list"

text \<open>
  The innermost loop of \<^verbatim>\<open>crossVersionValidator.Validate\<close>: the validations are called
  in list order on the diff; a non-nil error is appended to \<open>errs\<close> whatever the flag says;
  the first validation whose flag is true sets \<^verbatim>\<open>handled\<close> and breaks the loop.
  The result is \<^verbatim>\<open>handled\<close> and \<open>errs\<close> after the loop.
\<close>

fun tryValidations ::
  "'d ChangeValidation list \<Rightarrow> string \<Rightarrow> string \<Rightarrow> string \<Rightarrow> 'd \<Rightarrow> err list \<Rightarrow> bool \<times> err list"
where
  "tryValidations [] a b field diff errs = (False, errs)"
| "tryValidations (validation # rest) a b field diff errs =
     (case validation diff of (diff', ok, e) \<Rightarrow>
        let errs' = (case e of None \<Rightarrow> errs | Some x \<Rightarrow> errs @ [FieldChange a b field x])
        in if ok then (True, errs') else tryValidations rest a b field diff' errs')"

text \<open>The body of the loop over the diffs of one pair of versions.\<close>

definition validateField ::
  "'d ChangeValidation list \<Rightarrow> string \<Rightarrow> string \<Rightarrow> string \<times> 'd \<Rightarrow> err list \<Rightarrow> err list"
where
  "validateField vs a b fd errs =
     (case tryValidations vs a b (fst fd) (snd fd) errs of (handled, errs') \<Rightarrow>
        if \<not> handled then errs' @ [UnknownChange a b (fst fd)] else errs')"

fun validateDiffs ::
  "'d ChangeValidation list \<Rightarrow> string \<Rightarrow> string \<Rightarrow> (string \<times> 'd) list \<Rightarrow> err list \<Rightarrow> err list"
where
  "validateDiffs vs a b [] errs = errs"
| "validateDiffs vs a b (fd # diffs) errs = validateDiffs vs a b diffs (validateField vs a b fd errs)"

text \<open>The loop over \<^verbatim>\<open>versionB\<close> for a fixed \<^verbatim>\<open>versionA\<close>.\<close>

fun versionB_loop ::
  "('s, 'f, 'd, 'c, 'z) kappcus_scheme \<Rightarrow> 'd crossVersionValidator \<Rightarrow>
   's CustomResourceDefinitionVersion \<Rightarrow> 's CustomResourceDefinitionVersion list \<Rightarrow>
   err list \<Rightarrow> err list outcome"
where
  "versionB_loop K cvv versionA [] errs = Returns errs"
| "versionB_loop K cvv versionA (versionB # rest) errs =
     (if Name versionA = Name versionB then versionB_loop K cvv versionA rest errs
      else case Schema versionA of
        None \<Rightarrow> Panics
      | Some sA \<Rightarrow>
         (case Schema versionB of
            None \<Rightarrow> Panics
          | Some sB \<Rightarrow>
             let flatOld = FlattenSchema K sA; flatNew = FlattenSchema K sB
             in (case CalculateFlatSchemaDiff K flatOld flatNew of
                   Inl e \<Rightarrow>
                     versionB_loop K cvv versionA rest
                       (errs @ [CalculatingSchemaDiff (Name versionA) (Name versionB)])
                 | Inr diffs \<Rightarrow>
                     versionB_loop K cvv versionA rest
                       (validateDiffs (changeValidations cvv) (Name versionA) (Name versionB) diffs errs))))"

text \<open>The loop over \<^verbatim>\<open>versionA\<close>; \<open>all\<close> is \<^verbatim>\<open>crd.Spec.Versions\<close>, ranged over again inside.\<close>

fun versionA_loop ::
  "('s, 'f, 'd, 'c, 'z) kappcus_scheme \<Rightarrow> 'd crossVersionValidator \<Rightarrow>
   's CustomResourceDefinitionVersion list \<Rightarrow> 's CustomResourceDefinitionVersion list \<Rightarrow>
   err list \<Rightarrow> err list outcome"
where
  "versionA_loop K cvv all [] errs = Returns errs"
| "versionA_loop K cvv all (versionA # rest) errs =
     (case versionB_loop K cvv versionA all errs of
        Panics \<Rightarrow> Panics
      | Returns errs' \<Rightarrow> versionA_loop K cvv all rest errs')"

definition crossVersionValidator_Validate ::
  "('s, 'f, 'd, 'c, 'z) kappcus_scheme \<Rightarrow> 'd crossVersionValidator \<Rightarrow>
   ('s, 'y) CustomResourceDefinition_scheme \<Rightarrow> err option outcome"
where
  "crossVersionValidator_Validate K cvv crd =
     (case versionA_loop K cvv (spec_Versions crd) (spec_Versions crd) [] of
        Panics \<Rightarrow> Panics
      | Returns errs \<Rightarrow> Returns (errors_Join errs))"

subsection \<open>The change rule set, in the words of the specification\<close>

text \<open>
  No validation of the list claims the diff: each one, given the diff as its predecessors
  left it, returns \<^verbatim>\<open>handled = false\<close>.
\<close>

fun noneHandles :: "'d ChangeValidation list \<Rightarrow> 'd \<Rightarrow> bool" where
  "noneHandles [] diff = True"
| "noneHandles (validation # rest) diff =
     (case validation diff of (diff', ok, e) \<Rightarrow> \<not> ok \<and> noneHandles rest diff')"

text \<open>
  What the validations return when called one after the other on a diff, each on what its
  predecessor left: the flag and the error of each.
\<close>

fun outcomes :: "'d ChangeValidation list \<Rightarrow> 'd \<Rightarrow> (bool \<times> err option) list" where
  "outcomes [] diff = []"
| "outcomes (validation # rest) diff =
     (case validation diff of (diff', ok, e) \<Rightarrow> (ok, e) # outcomes rest diff')"

text \<open>The errors among some outcomes, wrapped as the loop wraps them.\<close>

definition recorded :: "string \<Rightarrow> string \<Rightarrow> string \<Rightarrow> (bool \<times> err option) list \<Rightarrow> err list" where
  "recorded a b field os =
     concat (map (\<lambda>r. case snd r of None \<Rightarrow> [] | Some x \<Rightarrow> [FieldChange a b field x]) os)"

text \<open>The outcomes up to and including the first whose flag is true.\<close>

fun upToHandler :: "(bool \<times> err option) list \<Rightarrow> (bool \<times> err option) list" where
  "upToHandler [] = []"
| "upToHandler (r # rs) = (if fst r then [r] else r # upToHandler rs)"

text \<open>
  A field diff run through the change rule set, stated from the rules and not from the
  loop: the rules are applied to the diff in their order; the errors of the rules applied,
  up to and including the first that returns \<^verbatim>\<open>handled = true\<close>, are the errors of the
  field; and when no rule returns \<^verbatim>\<open>handled = true\<close> the field has an unknown change.
\<close>

definition fieldErrors ::
  "'d ChangeValidation list \<Rightarrow> string \<Rightarrow> string \<Rightarrow> string \<times> 'd \<Rightarrow> err list"
where
  "fieldErrors rules a b fd =
     recorded a b (fst fd) (upToHandler (outcomes rules (snd fd))) @
     (if list_ex fst (outcomes rules (snd fd)) then [] else [UnknownChange a b (fst fd)])"

subsection \<open>What the loops compute, pair by pair\<close>

text \<open>
  The statements below speak of the ordered pairs of versions the two loops visit and of
  what one visit contributes.  \<open>orderedPairs\<close> lists the pairs in visiting order.
  \<open>checkPair\<close> is what the specification asks for one pair: both schemas are flattened,
  the diff is computed, and each field diff is run through the change rule set
  (\<open>fieldErrors\<close>); nothing else is run.  A version without a schema makes the visit panic.
\<close>

definition orderedPairs ::
  "'s CustomResourceDefinitionVersion list \<Rightarrow>
   ('s CustomResourceDefinitionVersion \<times> 's CustomResourceDefinitionVersion) list"
where
  "orderedPairs vs = concat (map (\<lambda>a. map (\<lambda>b. (a, b)) (filter (\<lambda>b. Name a \<noteq> Name b) vs)) vs)"

definition checkPair ::
  "('s, 'f, 'd, 'c, 'z) kappcus_scheme \<Rightarrow> 'd crossVersionValidator \<Rightarrow>
   's CustomResourceDefinitionVersion \<times> 's CustomResourceDefinitionVersion \<Rightarrow> err list outcome"
where
  "checkPair K cvv ab =
     (case Schema (fst ab) of
        None \<Rightarrow> Panics
      | Some sA \<Rightarrow>
         (case Schema (snd ab) of
            None \<Rightarrow> Panics
          | Some sB \<Rightarrow>
             (case CalculateFlatSchemaDiff K (FlattenSchema K sA) (FlattenSchema K sB) of
                Inl e \<Rightarrow> Returns [CalculatingSchemaDiff (Name (fst ab)) (Name (snd ab))]
              | Inr diffs \<Rightarrow>
                  Returns (concat (map (fieldErrors (changeValidations cvv)
                                         (Name (fst ab)) (Name (snd ab))) diffs)))))"

definition pairErrors ::
  "('s, 'f, 'd, 'c, 'z) kappcus_scheme \<Rightarrow> 'd crossVersionValidator \<Rightarrow>
   's CustomResourceDefinitionVersion \<times> 's CustomResourceDefinitionVersion \<Rightarrow> err list"
where
  "pairErrors K cvv ab = (case checkPair K cvv ab of Panics \<Rightarrow> [] | Returns es \<Rightarrow> es)"

fun checkPairs ::
  "('s, 'f, 'd, 'c, 'z) kappcus_scheme \<Rightarrow> 'd crossVersionValidator \<Rightarrow>
   ('s CustomResourceDefinitionVersion \<times> 's CustomResourceDefinitionVersion) list \<Rightarrow>
   err list outcome"
where
  "checkPairs K cvv [] = Returns []"
| "checkPairs K cvv (ab # ps) =
     (case checkPair K cvv ab of
        Panics \<Rightarrow> Panics
      | Returns es \<Rightarrow>
         (case checkPairs K cvv ps of
            Panics \<Rightarrow> Panics
          | Returns es' \<Rightarrow> Returns (es @ es')))"


section \<open>The CRD upgrade safety preflight\<close>

text \<open>
  \<open>crdClient\<close> is the \<^verbatim>\<open>Get\<close> of the cluster's CRD client: the active definition of a
  name, or the error of the read (not-found included).  \<open>validator\<close> is the
  \<^verbatim>\<open>Validations\<close> of the library validator the field points to.
\<close>

record ('c, 'd) Preflight =
  crdClient :: "string \<Rightarrow> err + 'c"
  validator :: "Validation list"
  crossVersionValidator :: "'d crossVersionValidator"

datatype Option = WithValidator "Validation list"

fun applyOption :: "Option \<Rightarrow> ('c, 'd) Preflight \<Rightarrow> ('c, 'd) Preflight" where
  "applyOption (WithValidator v) p = p\<lparr>validator := v\<rparr>"

text \<open>The change validations in the order the specification names them.\<close>

definition declaredChangeValidations :: "ChangeValidationName list" where
  "declaredChangeValidations =
     [EnumChangeValidation,
      RequiredFieldChangeValidation,
      MaximumChangeValidation,
      MaximumItemsChangeValidation,
      MaximumLengthChangeValidation,
      MaximumPropertiesChangeValidation,
      MinimumChangeValidation,
      MinimumItemsChangeValidation,
      MinimumLengthChangeValidation,
      MinimumPropertiesChangeValidation,
      DefaultValueChangeValidation]"

definition NewPreflight ::
  "('s, 'f, 'd, 'c, 'z) kappcus_scheme \<Rightarrow> (string \<Rightarrow> err + 'c) \<Rightarrow> Option list \<Rightarrow> ('c, 'd) Preflight"
where
  "NewPreflight K crdCli opts =
     fold applyOption opts
       \<lparr> crdClient = crdCli,
         validator =
           [NoScopeChange, NoStoredVersionRemoved, NoExistingFieldRemoved,
            ChangeValidator
              [EnumChangeValidation,
               RequiredFieldChangeValidation,
               MaximumChangeValidation,
               MaximumItemsChangeValidation,
               MaximumLengthChangeValidation,
               MaximumPropertiesChangeValidation,
               MinimumChangeValidation,
               MinimumItemsChangeValidation,
               MinimumLengthChangeValidation,
               MinimumPropertiesChangeValidation,
               DefaultValueChangeValidation]],
         crossVersionValidator =
           \<lparr> changeValidations =
               [ChangeValidationFunc K EnumChangeValidation,
                ChangeValidationFunc K RequiredFieldChangeValidation,
                ChangeValidationFunc K MaximumChangeValidation,
                ChangeValidationFunc K MaximumItemsChangeValidation,
                ChangeValidationFunc K MaximumLengthChangeValidation,
                ChangeValidationFunc K MaximumPropertiesChangeValidation,
                ChangeValidationFunc K MinimumChangeValidation,
                ChangeValidationFunc K MinimumItemsChangeValidation,
                ChangeValidationFunc K MinimumLengthChangeValidation,
                ChangeValidationFunc K MinimumPropertiesChangeValidation,
                ChangeValidationFunc K DefaultValueChangeValidation] \<rparr> \<rparr>"

text \<open>A Helm release, as far as the sources read it.\<close>

datatype Status = StatusDeployed | StatusFailed | StatusSuperseded | StatusOther string

record Release =
  release_Name :: string
  Manifest :: string
  Info_Status :: Status

text \<open>
  The decoding of a release manifest and the conversions of the Kubernetes runtime are
  outside the sources: \<^verbatim>\<open>util.ManifestObjects\<close> (manifest text and a name to a list of
  objects), the group, version and kind and the name of an object \<open>'o\<close>, and the two
  conversions through the unstructured form \<open>'u\<close>.
\<close>

record ('o, 'u, 'c) runtime =
  ManifestObjects :: "string \<Rightarrow> string \<Rightarrow> err + 'o list"
  GroupVersionKind :: "'o \<Rightarrow> string \<times> string \<times> string"
  GetName :: "'o \<Rightarrow> string"
  ToUnstructured :: "'o \<Rightarrow> err + 'u"
  FromUnstructured :: "'u \<Rightarrow> err + 'c"

definition CustomResourceDefinitionGVK :: "string \<times> string \<times> string" where
  "CustomResourceDefinitionGVK = (''apiextensions.k8s.io'', ''v1'', ''CustomResourceDefinition'')"

text \<open>
  What an \<^verbatim>\<open>Upgrade\<close> call does besides returning: the reads of active definitions and
  the validations it runs, in order, each with the name of the proposed definition.
\<close>

datatype crd_event =
    CRDGet string
  | ValidatorValidate string
  | CrossVersionValidate string

text \<open>
  One iteration of the loop over the release objects.  It skips the object
  (\<^verbatim>\<open>continue\<close>), returns from \<^verbatim>\<open>Upgrade\<close> with an error, panics inside the cross-version
  validator, or goes on with the errors to append to \<^verbatim>\<open>validateErrors\<close>.
\<close>

datatype verdict = NotCRD | Fatal err | Panicked | Failures "err list"

definition checkObject ::
  "('s, 'f, 'd, ('s, 'y) CustomResourceDefinition_scheme, 'z) kappcus_scheme \<Rightarrow>
   ('o, 'u, ('s, 'y) CustomResourceDefinition_scheme, 'x) runtime_scheme \<Rightarrow>
   (('s, 'y) CustomResourceDefinition_scheme, 'd) Preflight \<Rightarrow> 'o \<Rightarrow> verdict \<times> crd_event list"
where
  "checkObject K R p obj =
     (if GroupVersionKind R obj \<noteq> CustomResourceDefinitionGVK then (NotCRD, [])
      else case ToUnstructured R obj of
        Inl e \<Rightarrow> (Fatal (ConvertingToUnstructured (GetName R obj) e), [])
      | Inr uMap \<Rightarrow>
         (case FromUnstructured R uMap of
            Inl e \<Rightarrow> (Fatal (ConvertingToCRD e), [])
          | Inr newCrd \<Rightarrow>
             (case crdClient p (metadata_Name newCrd) of
                Inl e \<Rightarrow>
                  (Fatal (GettingExistingCRD (metadata_Name newCrd) e), [CRDGet (metadata_Name newCrd)])
              | Inr oldCrd \<Rightarrow>
                 (let errs1 =
                        (case Validator_Validate K (validator p) oldCrd newCrd of
                           None \<Rightarrow> []
                         | Some e \<Rightarrow> [ValidatingUpgradeFailed (metadata_Name newCrd) e]);
                      events = [CRDGet (metadata_Name newCrd),
                                ValidatorValidate (metadata_Name newCrd),
                                CrossVersionValidate (metadata_Name newCrd)]
                  in case crossVersionValidator_Validate K (crossVersionValidator p) newCrd of
                       Panics \<Rightarrow> (Panicked, events)
                     | Returns None \<Rightarrow> (Failures errs1, events)
                     | Returns (Some e) \<Rightarrow>
                         (Failures (errs1 @ [CrossVersionValidationFailed (metadata_Name newCrd) e]),
                          events)))))"

fun Upgrade_loop ::
  "('s, 'f, 'd, ('s, 'y) CustomResourceDefinition_scheme, 'z) kappcus_scheme \<Rightarrow>
   ('o, 'u, ('s, 'y) CustomResourceDefinition_scheme, 'x) runtime_scheme \<Rightarrow>
   (('s, 'y) CustomResourceDefinition_scheme, 'd) Preflight \<Rightarrow> 'o list \<Rightarrow>
   err list \<Rightarrow> crd_event list \<Rightarrow> err option outcome \<times> crd_event list"
where
  "Upgrade_loop K R p [] validateErrors trace = (Returns (errors_Join validateErrors), trace)"
| "Upgrade_loop K R p (obj # rest) validateErrors trace =
     (case checkObject K R p obj of
        (NotCRD, events) \<Rightarrow> Upgrade_loop K R p rest validateErrors (trace @ events)
      | (Fatal e, events) \<Rightarrow> (Returns (Some e), trace @ events)
      | (Panicked, events) \<Rightarrow> (Panics, trace @ events)
      | (Failures errs, events) \<Rightarrow> Upgrade_loop K R p rest (validateErrors @ errs) (trace @ events))"

definition Preflight_Install :: "('c, 'd) Preflight \<Rightarrow> Release option \<Rightarrow> err option" where
  "Preflight_Install p rel = None"

definition Preflight_Upgrade ::
  "('s, 'f, 'd, ('s, 'y) CustomResourceDefinition_scheme, 'z) kappcus_scheme \<Rightarrow>
   ('o, 'u, ('s, 'y) CustomResourceDefinition_scheme, 'x) runtime_scheme \<Rightarrow>
   (('s, 'y) CustomResourceDefinition_scheme, 'd) Preflight \<Rightarrow> Release option \<Rightarrow>
   err option outcome \<times> crd_event list"
where
  "Preflight_Upgrade K R p rel =
     (case rel of
        None \<Rightarrow> (Returns None, [])
      | Some r \<Rightarrow>
         (case ManifestObjects R (Manifest r) (release_Name r @ ''-release-manifest'') of
            Inl e \<Rightarrow> (Returns (Some (ParsingReleaseObjects (release_Name r) e)), [])
          | Inr relObjects \<Rightarrow> Upgrade_loop K R p relObjects [] []))"

text \<open>
  For the statements about \<^verbatim>\<open>Upgrade\<close>: the failures one object contributes, and whether
  its iteration lets the loop go on.
\<close>

definition objectFailures ::
  "('s, 'f, 'd, ('s, 'y) CustomResourceDefinition_scheme, 'z) kappcus_scheme \<Rightarrow>
   ('o, 'u, ('s, 'y) CustomResourceDefinition_scheme, 'x) runtime_scheme \<Rightarrow>
   (('s, 'y) CustomResourceDefinition_scheme, 'd) Preflight \<Rightarrow> 'o \<Rightarrow> err list"
where
  "objectFailures K R p obj =
     (case fst (checkObject K R p obj) of Failures errs \<Rightarrow> errs | _ \<Rightarrow> [])"

definition goesOn ::
  "('s, 'f, 'd, ('s, 'y) CustomResourceDefinition_scheme, 'z) kappcus_scheme \<Rightarrow>
   ('o, 'u, ('s, 'y) CustomResourceDefinition_scheme, 'x) runtime_scheme \<Rightarrow>
   (('s, 'y) CustomResourceDefinition_scheme, 'd) Preflight \<Rightarrow> 'o \<Rightarrow> bool"
where
  "goesOn K R p obj =
     (case fst (checkObject K R p obj) of NotCRD \<Rightarrow> True | Failures errs \<Rightarrow> True | _ \<Rightarrow> False)"

section \<open>The Helm applier\<close>

record CRDUpgradeSafetyPreflightConfig =
  Disabled :: bool

record PreflightConfig =
  CRDUpgradeSafety :: "CRDUpgradeSafetyPreflightConfig option"

record ClusterExtension =
  ext_Name :: string
  spec_PackageName :: string
  spec_Channel :: string
  spec_Version :: string
  spec_UpgradeConstraintPolicy :: string
  spec_InstallNamespace :: string
  spec_Preflight :: "PreflightConfig option"

text \<open>
  A value of the interface \<^verbatim>\<open>Preflight\<close>: its two methods, and whether its dynamic type is
  \<^verbatim>\<open>*crdupgradesafety.Preflight\<close> (what the type assertion in \<^verbatim>\<open>Apply\<close> tests).
\<close>

record applier_Preflight =
  isCRDUpgradeSafetyPreflight :: bool
  Install :: "Release option \<Rightarrow> err option outcome"
  Upgrade :: "Release option \<Rightarrow> err option outcome"

text \<open>The CRD upgrade safety preflight as a value of that interface.\<close>

definition crdupgradesafety_Preflight ::
  "('s, 'f, 'd, ('s, 'y) CustomResourceDefinition_scheme, 'z) kappcus_scheme \<Rightarrow>
   ('o, 'u, ('s, 'y) CustomResourceDefinition_scheme, 'x) runtime_scheme \<Rightarrow>
   (('s, 'y) CustomResourceDefinition_scheme, 'd) Preflight \<Rightarrow> applier_Preflight"
where
  "crdupgradesafety_Preflight K R p =
     \<lparr> isCRDUpgradeSafetyPreflight = True,
       Install = (\<lambda>rel. Returns (Preflight_Install p rel)),
       Upgrade = (\<lambda>rel. fst (Preflight_Upgrade K R p rel)) \<rparr>"

text \<open>
  The result of the action client's \<^verbatim>\<open>Get\<close>: a release, an error for which
  \<^verbatim>\<open>errors.Is(err, driver.ErrReleaseNotFound)\<close> holds, or another error.
\<close>

datatype get_result = Found Release | ReleaseNotFound err | GetFailed err

text \<open>
  The collaborators of \<^verbatim>\<open>Apply\<close> outside the sources: the conversion of the bundle to a
  chart, the bundle's version, the action client of the extension (its \<^verbatim>\<open>Get\<close>, the
  dry-run \<^verbatim>\<open>Upgrade\<close> of \<^verbatim>\<open>getReleaseState\<close>, and the \<^verbatim>\<open>Install\<close>, \<^verbatim>\<open>Upgrade\<close> and
  \<^verbatim>\<open>Reconcile\<close> that change the cluster), and the manifest decoder.  The labels and the
  post-renderer that \<^verbatim>\<open>Apply\<close> hands to the client only pass through it.
\<close>

record ('fs, 'chart, 'b, 'o) helm_client =
  RegistryV1ToHelmChart :: "'fs \<Rightarrow> string \<Rightarrow> err + 'chart"
  bundle_Version :: "'b \<Rightarrow> err + string"
  ac_Get :: "string \<Rightarrow> get_result"
  ac_Upgrade_DryRun :: "string \<Rightarrow> string \<Rightarrow> 'chart \<Rightarrow> err + Release"
  ac_Install :: "string \<Rightarrow> string \<Rightarrow> 'chart \<Rightarrow> err + Release"
  ac_Upgrade :: "string \<Rightarrow> string \<Rightarrow> 'chart \<Rightarrow> err + Release"
  ac_Reconcile :: "Release option \<Rightarrow> err option"
  util_ManifestObjects :: "string \<Rightarrow> string \<Rightarrow> err + 'o list"

record Helm =
  ActionClientGetter :: "ClusterExtension \<Rightarrow> err option"
  Preflights :: "applier_Preflight list"

datatype releaseState = stateNeedsInstall | stateNeedsUpgrade | stateUnchanged | stateError

fun releaseState_string :: "releaseState \<Rightarrow> string" where
  "releaseState_string stateNeedsInstall = ''NeedsInstall''"
| "releaseState_string stateNeedsUpgrade = ''NeedsUpgrade''"
| "releaseState_string stateUnchanged = ''Unchanged''"
| "releaseState_string stateError = ''Error''"

text \<open>
  \<^verbatim>\<open>getReleaseState\<close> returns the current release, the desired release, the state and the
  error.  When the release is not found it returns at once with no desired release; the
  dry-run install that follows in the source sits behind the same test and is never reached.
\<close>

definition getReleaseState ::
  "('fs, 'chart, 'b, 'o, 'w) helm_client_scheme \<Rightarrow> ClusterExtension \<Rightarrow> 'chart \<Rightarrow>
   Release option \<times> Release option \<times> releaseState \<times> err option"
where
  "getReleaseState cl ext chrt =
     (case ac_Get cl (ext_Name ext) of
        GetFailed e \<Rightarrow> (None, None, stateError, Some e)
      | ReleaseNotFound e \<Rightarrow> (None, None, stateNeedsInstall, None)
      | Found currentRelease \<Rightarrow>
         (case ac_Upgrade_DryRun cl (ext_Name ext) (spec_InstallNamespace ext) chrt of
            Inl e \<Rightarrow> (Some currentRelease, None, stateError, Some e)
          | Inr desiredRelease \<Rightarrow>
              (Some currentRelease, Some desiredRelease,
               (if Manifest desiredRelease \<noteq> Manifest currentRelease \<or>
                   Info_Status currentRelease = StatusFailed \<or>
                   Info_Status currentRelease = StatusSuperseded
                then stateNeedsUpgrade else stateUnchanged),
               None)))"

text \<open>
  What \<^verbatim>\<open>Apply\<close> does besides returning: the preflight methods it calls, each with the
  position of the preflight in \<^verbatim>\<open>h.Preflights\<close>, and the calls of the action client that
  change the cluster.
\<close>

datatype applier_event =
    PreflightInstall nat
  | PreflightUpgrade nat
  | ActionInstall
  | ActionUpgrade
  | ActionReconcile

text \<open>The test that skips a preflight in the loop of \<^verbatim>\<open>Apply\<close>.\<close>

definition skipped :: "ClusterExtension \<Rightarrow> applier_Preflight \<Rightarrow> bool" where
  "skipped ext preflight =
     (case spec_Preflight ext of
        None \<Rightarrow> False
      | Some pc \<Rightarrow>
         (case CRDUpgradeSafety pc of
            None \<Rightarrow> False
          | Some c \<Rightarrow> isCRDUpgradeSafetyPreflight preflight \<and> Disabled c))"

text \<open>
  The loop over \<^verbatim>\<open>h.Preflights\<close>; \<open>i\<close> is the position of the head of the list.  The
  result is the error that makes \<^verbatim>\<open>Apply\<close> return, or \<open>None\<close> when the loop ends.
\<close>

fun runPreflights ::
  "applier_Preflight list \<Rightarrow> nat \<Rightarrow> ClusterExtension \<Rightarrow> releaseState \<Rightarrow> Release option \<Rightarrow>
   applier_event list \<Rightarrow> err option outcome \<times> applier_event list"
where
  "runPreflights [] i ext state desiredRel trace = (Returns None, trace)"
| "runPreflights (preflight # rest) i ext state desiredRel trace =
     (if skipped ext preflight then runPreflights rest (Suc i) ext state desiredRel trace
      else case state of
        stateNeedsInstall \<Rightarrow>
          (case Install preflight desiredRel of
             Panics \<Rightarrow> (Panics, trace @ [PreflightInstall i])
           | Returns (Some e) \<Rightarrow> (Returns (Some e), trace @ [PreflightInstall i])
           | Returns None \<Rightarrow>
               runPreflights rest (Suc i) ext state desiredRel (trace @ [PreflightInstall i]))
      | stateNeedsUpgrade \<Rightarrow>
          (case Upgrade preflight desiredRel of
             Panics \<Rightarrow> (Panics, trace @ [PreflightUpgrade i])
           | Returns (Some e) \<Rightarrow> (Returns (Some e), trace @ [PreflightUpgrade i])
           | Returns None \<Rightarrow>
               runPreflights rest (Suc i) ext state desiredRel (trace @ [PreflightUpgrade i]))
      | _ \<Rightarrow> runPreflights rest (Suc i) ext state desiredRel trace)"

text \<open>The end of \<^verbatim>\<open>Apply\<close>: the objects of the manifest of \<^verbatim>\<open>rel\<close>.\<close>

definition managedObjects ::
  "('fs, 'chart, 'b, 'o, 'w) helm_client_scheme \<Rightarrow> Release option \<Rightarrow> applier_event list \<Rightarrow>
   (err + 'o list) outcome \<times> applier_event list"
where
  "managedObjects cl rel trace =
     (case rel of
        None \<Rightarrow> (Panics, trace)
      | Some r \<Rightarrow>
         (case util_ManifestObjects cl (Manifest r) (release_Name r @ ''-release-manifest'') of
            Inl e \<Rightarrow> (Returns (Inl (GettingManagedObjects e)), trace)
          | Inr relObjects \<Rightarrow> (Returns (Inr relObjects), trace)))"

definition Apply ::
  "('fs, 'chart, 'b, 'o, 'w) helm_client_scheme \<Rightarrow> Helm \<Rightarrow> 'fs \<Rightarrow> ClusterExtension \<Rightarrow> 'b \<Rightarrow>
   (err + 'o list) outcome \<times> applier_event list"
where
  "Apply cl h contentFS ext bundle =
     (case RegistryV1ToHelmChart cl contentFS (spec_InstallNamespace ext) of
        Inl e \<Rightarrow> (Returns (Inl e), [])
      | Inr chrt \<Rightarrow>
     (case ActionClientGetter h ext of
        Some e \<Rightarrow> (Returns (Inl e), [])
      | None \<Rightarrow>
     (case bundle_Version cl bundle of
        Inl e \<Rightarrow> (Returns (Inl e), [])
      | Inr bundleVersion \<Rightarrow>
     (case getReleaseState cl ext chrt of
        (rel, desiredRel, state, Some e) \<Rightarrow> (Returns (Inl e), [])
      | (rel, desiredRel, state, None) \<Rightarrow>
     (case runPreflights (Preflights h) 0 ext state desiredRel [] of
        (Panics, trace) \<Rightarrow> (Panics, trace)
      | (Returns (Some e), trace) \<Rightarrow> (Returns (Inl e), trace)
      | (Returns None, trace) \<Rightarrow>
         (case state of
            stateNeedsInstall \<Rightarrow>
              (case ac_Install cl (ext_Name ext) (spec_InstallNamespace ext) chrt of
                 Inl e \<Rightarrow> (Returns (Inl e), trace @ [ActionInstall])
               | Inr r \<Rightarrow> managedObjects cl (Some r) (trace @ [ActionInstall]))
          | stateNeedsUpgrade \<Rightarrow>
              (case ac_Upgrade cl (ext_Name ext) (spec_InstallNamespace ext) chrt of
                 Inl e \<Rightarrow> (Returns (Inl e), trace @ [ActionUpgrade])
               | Inr r \<Rightarrow> managedObjects cl (Some r) (trace @ [ActionUpgrade]))
          | stateUnchanged \<Rightarrow>
              (case ac_Reconcile cl rel of
                 Some e \<Rightarrow> (Returns (Inl e), trace @ [ActionReconcile])
               | None \<Rightarrow> managedObjects cl rel (trace @ [ActionReconcile]))
          | stateError \<Rightarrow>
              (Returns (Inl (UnexpectedReleaseState (releaseState_string state))), trace)))))))"

section \<open>Bundle resolution\<close>

record BundleMetadata =
  installed_Name :: string
  installed_Version :: string

text \<open>
  The collaborators of \<^verbatim>\<open>Resolve\<close> outside the sources, over bundles \<open>'b\<close> and semver
  constraints \<open>'vr\<close>: the semver parser, the catalog filter predicates, the successor
  predicate, the version order, the deprecation flag of a bundle and the policy constant.
\<close>

record ('b, 'vr) catalog =
  NewConstraint :: "string \<Rightarrow> err + 'vr"
  NewVersion :: "string \<Rightarrow> err + string"
  WithPackageName :: "string \<Rightarrow> 'b \<Rightarrow> bool"
  InChannel :: "string \<Rightarrow> 'b \<Rightarrow> bool"
  InMastermindsSemverRange :: "'vr \<Rightarrow> 'b \<Rightarrow> bool"
  SuccessorsPredicate :: "string \<Rightarrow> BundleMetadata \<Rightarrow> err + ('b \<Rightarrow> bool)"
  ByVersion :: "'b \<Rightarrow> 'b \<Rightarrow> bool"
  IsDeprecated :: "'b \<Rightarrow> bool"
  UpgradeConstraintPolicyIgnore :: string

record 'b Resolver =
  BundleProvider :: "string \<Rightarrow> err + 'b list"
  InstalledBundleGetter :: "ClusterExtension \<Rightarrow> err + BundleMetadata option"
  Validations :: "('b \<Rightarrow> err option) list"

text \<open>
  Modelled from the spec: \<^verbatim>\<open>catalogfilter.And\<close>, which is not among the sources.
  Resolution is "filtering by channel and semver range": the conjunction holds for a bundle
  when every predicate holds for it.
\<close>

definition catalogfilter_And :: "('b \<Rightarrow> bool) list \<Rightarrow> 'b \<Rightarrow> bool" where
  "catalogfilter_And predicates b = list_all (\<lambda>predicate. predicate b) predicates"

text \<open>
  Modelled from the spec: \<^verbatim>\<open>catalogfilter.Filter\<close>, which is not among the sources.
  Resolution is "filtering by channel and semver range": the bundles for which the test
  holds stay, in their order.
\<close>

definition catalogfilter_Filter :: "'b list \<Rightarrow> ('b \<Rightarrow> bool) \<Rightarrow> 'b list" where
  "catalogfilter_Filter bundles test = filter test bundles"

text \<open>
  Modelled from the spec: \<^verbatim>\<open>catalogsort.ByDeprecated\<close>, which is not among the sources.
  Resolution is "tie-breaking by deprecation": as a less-than, a bundle that is not
  deprecated comes before one that is.
\<close>

definition catalogsort_ByDeprecated :: "('b, 'vr, 'z) catalog_scheme \<Rightarrow> 'b \<Rightarrow> 'b \<Rightarrow> bool" where
  "catalogsort_ByDeprecated C b1 b2 = (\<not> IsDeprecated C b1 \<and> IsDeprecated C b2)"

text \<open>
  \<^verbatim>\<open>sort.SliceStable\<close> of the Go library, as a stable insertion sort: an element is put
  before the first element that is not less than it, so elements of which neither is less
  keep their order.
\<close>

fun insertStable :: "('b \<Rightarrow> 'b \<Rightarrow> bool) \<Rightarrow> 'b \<Rightarrow> 'b list \<Rightarrow> 'b list" where
  "insertStable lt x [] = [x]"
| "insertStable lt x (y # ys) =
     (if lt y x then y # insertStable lt x ys else x # y # ys)"

definition sort_SliceStable :: "('b \<Rightarrow> 'b \<Rightarrow> bool) \<Rightarrow> 'b list \<Rightarrow> 'b list" where
  "sort_SliceStable lt xs = foldr (insertStable lt) xs []"

text \<open>The predicates \<^verbatim>\<open>Resolve\<close> collects, or the error that makes it return.\<close>

definition resolvePredicates ::
  "('b, 'vr, 'z) catalog_scheme \<Rightarrow> ClusterExtension \<Rightarrow> BundleMetadata option \<Rightarrow>
   err + ('b \<Rightarrow> bool) list"
where
  "resolvePredicates C ext installedBundle =
     (let packageName = spec_PackageName ext;
          channelName = spec_Channel ext;
          versionRange = spec_Version ext;
          predicates1 = [WithPackageName C packageName];
          predicates2 = (if channelName \<noteq> [] then predicates1 @ [InChannel C channelName]
                         else predicates1)
      in case (if versionRange \<noteq> []
               then (case NewConstraint C versionRange of
                       Inl e \<Rightarrow> Inl (InvalidVersionRange versionRange e)
                     | Inr vr \<Rightarrow> Inr (predicates2 @ [InMastermindsSemverRange C vr]))
               else Inr predicates2) of
           Inl e \<Rightarrow> Inl e
         | Inr predicates3 \<Rightarrow>
            (case installedBundle of
               None \<Rightarrow> Inr predicates3
             | Some ib \<Rightarrow>
                 if spec_UpgradeConstraintPolicy ext \<noteq> UpgradeConstraintPolicyIgnore C
                 then (case SuccessorsPredicate C (spec_PackageName ext) ib of
                         Inl e \<Rightarrow> Inl e
                       | Inr upgradePredicate \<Rightarrow> Inr (predicates3 @ [upgradePredicate]))
                 else Inr predicates3))"

text \<open>The loop over \<^verbatim>\<open>r.Validations\<close> on the resolved bundle.\<close>

fun validateResolved :: "('b \<Rightarrow> err option) list \<Rightarrow> 'b \<Rightarrow> err + 'b" where
  "validateResolved [] resolvedBundle = Inr resolvedBundle"
| "validateResolved (validation # rest) resolvedBundle =
     (case validation resolvedBundle of
        Some e \<Rightarrow> Inl (ValidatingResolvedBundle e)
      | None \<Rightarrow> validateResolved rest resolvedBundle)"

text \<open>
  \<^verbatim>\<open>Resolve\<close>.  The index \<^verbatim>\<open>resultSet[0]\<close> is taken after the test for an empty
  \<^verbatim>\<open>resultSet\<close> and the two sorts; on an empty slice it would panic.
\<close>

definition Resolve ::
  "('b, 'vr, 'z) catalog_scheme \<Rightarrow> 'b Resolver \<Rightarrow> ClusterExtension option \<Rightarrow> (err + 'b) outcome"
where
  "Resolve C r extp =
     (case extp of
        None \<Rightarrow> Returns (Inl NilClusterExtension)
      | Some ext \<Rightarrow>
     (let packageName = spec_PackageName ext;
          channelName = spec_Channel ext;
          versionRange = spec_Version ext
      in case BundleProvider r packageName of
        Inl e \<Rightarrow> Returns (Inl (FetchingBundles e))
      | Inr allBundles \<Rightarrow>
     (case InstalledBundleGetter r ext of
        Inl e \<Rightarrow> Returns (Inl (FetchingInstalledBundle e))
      | Inr installedBundle \<Rightarrow>
     (case resolvePredicates C ext installedBundle of
        Inl e \<Rightarrow> Returns (Inl e)
      | Inr predicates \<Rightarrow>
     (let resultSet = catalogfilter_Filter allBundles (catalogfilter_And predicates)
      in case (case installedBundle of
                 None \<Rightarrow> Inr None
               | Some ib \<Rightarrow>
                  (case NewVersion C (installed_Version ib) of
                     Inl e \<Rightarrow> Inl e
                   | Inr installedBundleVersion \<Rightarrow> Inr (Some installedBundleVersion))) of
           Inl e \<Rightarrow> Returns (Inl e)
         | Inr upgradeErrorPrefix \<Rightarrow>
            if length resultSet = 0
            then Returns (Inl (NoPackageFound upgradeErrorPrefix packageName
                                 (if versionRange \<noteq> [] then Some versionRange else None)
                                 (if channelName \<noteq> [] then Some channelName else None)))
            else (case sort_SliceStable (catalogsort_ByDeprecated C)
                         (sort_SliceStable (ByVersion C) resultSet) of
                    [] \<Rightarrow> Panics
                  | resolvedBundle # others \<Rightarrow>
                      Returns (validateResolved (Validations r) resolvedBundle)))))))"

text \<open>
  For the statement about \<^verbatim>\<open>Resolve\<close>: the bundles that pass every filter
  \<^verbatim>\<open>Resolve\<close> applies.  A bundle is a candidate when it has the package name, is in the
  channel if a channel is given, is in the semver range if a version range is given, and,
  when a bundle is installed and the upgrade constraint policy is not the ignoring one, is
  a successor of the installed bundle.  The last filter is in the source
  (\<^verbatim>\<open>SuccessorsPredicate\<close>); the specification names the first three only.
\<close>

definition candidate ::
  "('b, 'vr, 'z) catalog_scheme \<Rightarrow> ClusterExtension \<Rightarrow> BundleMetadata option \<Rightarrow> 'b \<Rightarrow> bool"
where
  "candidate C ext installedBundle b =
     (WithPackageName C (spec_PackageName ext) b \<and>
      (spec_Channel ext \<noteq> [] \<longrightarrow> InChannel C (spec_Channel ext) b) \<and>
      (spec_Version ext \<noteq> [] \<longrightarrow>
         (case NewConstraint C (spec_Version ext) of
            Inl e \<Rightarrow> False
          | Inr vr \<Rightarrow> InMastermindsSemverRange C vr b)) \<and>
      (case installedBundle of
         None \<Rightarrow> True
       | Some ib \<Rightarrow>
           spec_UpgradeConstraintPolicy ext \<noteq> UpgradeConstraintPolicyIgnore C \<longrightarrow>
             (case SuccessorsPredicate C (spec_PackageName ext) ib of
                Inl e \<Rightarrow> False
              | Inr upgradePredicate \<Rightarrow> upgradePredicate b)))"

section \<open>A small instance\<close>

text \<open>
  Concrete collaborators on which the theorems are exercised.  A schema is a number (say,
  the maximum of the one field \<^verbatim>\<open>spec.size\<close>); flattening keeps it; two schemas differ
  in that field when the numbers differ, and the diff carries the new number.
\<close>

definition ex_flatten :: "nat \<Rightarrow> nat" where
  "ex_flatten s = s"

definition ex_diff :: "nat \<Rightarrow> nat \<Rightarrow> err + (string \<times> nat) list" where
  "ex_diff old new = (if old = new then Inr [] else Inr [(''spec.size'', new)])"

definition ex_declines :: "nat ChangeValidation" where
  "ex_declines d = (d, False, None)"

definition ex_complains :: "nat ChangeValidation" where
  "ex_complains d = (d, False, Some (External ''enum value removed''))"

definition ex_accepts :: "nat ChangeValidation" where
  "ex_accepts d = (d, True, None)"

definition ex_rule :: "ChangeValidationName \<Rightarrow> nat ChangeValidation" where
  "ex_rule n =
     (if n = EnumChangeValidation then ex_complains
      else if n = MaximumChangeValidation then ex_accepts
      else ex_declines)"

definition ex_validate ::
  "Validation list \<Rightarrow> nat CustomResourceDefinition \<Rightarrow> nat CustomResourceDefinition \<Rightarrow> err option"
where
  "ex_validate vs old new =
     (if spec_Versions old = spec_Versions new then None else Some (External ''unsafe change''))"

definition ex_K :: "(nat, nat, nat, nat CustomResourceDefinition) kappcus" where
  "ex_K = \<lparr> FlattenSchema = ex_flatten, CalculateFlatSchemaDiff = ex_diff,
            ChangeValidationFunc = ex_rule, Validator_Validate = ex_validate \<rparr>"

definition ex_v1 :: "nat CustomResourceDefinitionVersion" where
  "ex_v1 = \<lparr> Name = ''v1'', Schema = Some 10 \<rparr>"

definition ex_v2 :: "nat CustomResourceDefinitionVersion" where
  "ex_v2 = \<lparr> Name = ''v2'', Schema = Some 20 \<rparr>"

definition ex_widgets :: "nat CustomResourceDefinition" where
  "ex_widgets = \<lparr> metadata_Name = ''widgets'', spec_Versions = [ex_v1, ex_v2] \<rparr>"

definition ex_gadgets :: "nat CustomResourceDefinition" where
  "ex_gadgets = \<lparr> metadata_Name = ''gadgets'', spec_Versions = [ex_v1] \<rparr>"

definition ex_cvv_declining :: "nat crossVersionValidator" where
  "ex_cvv_declining = \<lparr> changeValidations = [ex_declines, ex_declines] \<rparr>"

text \<open>
  The cluster holds \<^verbatim>\<open>widgets\<close> with the single version \<^verbatim>\<open>v1\<close> and nothing else.
\<close>

definition ex_crdClient :: "string \<Rightarrow> err + nat CustomResourceDefinition" where
  "ex_crdClient name =
     (if name = ''widgets'' then Inr \<lparr> metadata_Name = ''widgets'', spec_Versions = [ex_v1] \<rparr>
      else Inl (External ''not found''))"

definition ex_preflight :: "(nat CustomResourceDefinition, nat) Preflight" where
  "ex_preflight = NewPreflight ex_K ex_crdClient []"

text \<open>
  Release objects are definitions or config maps; the manifest \<^verbatim>\<open>widgets\<close> holds a config
  map and the definition \<^verbatim>\<open>widgets\<close>, the manifest \<^verbatim>\<open>widgets+gadgets\<close> the definitions
  \<^verbatim>\<open>widgets\<close> and \<^verbatim>\<open>gadgets\<close>.
\<close>

datatype ex_object = CRDObject "nat CustomResourceDefinition" | ConfigMapObject string

fun ex_gvk :: "ex_object \<Rightarrow> string \<times> string \<times> string" where
  "ex_gvk (CRDObject c) = (''apiextensions.k8s.io'', ''v1'', ''CustomResourceDefinition'')"
| "ex_gvk (ConfigMapObject n) = ('''', ''v1'', ''ConfigMap'')"

fun ex_name :: "ex_object \<Rightarrow> string" where
  "ex_name (CRDObject c) = metadata_Name c"
| "ex_name (ConfigMapObject n) = n"

fun ex_to_unstructured :: "ex_object \<Rightarrow> err + ex_object" where
  "ex_to_unstructured obj = Inr obj"

fun ex_from_unstructured :: "ex_object \<Rightarrow> err + nat CustomResourceDefinition" where
  "ex_from_unstructured (CRDObject c) = Inr c"
| "ex_from_unstructured (ConfigMapObject n) = Inl (External ''not a definition'')"

definition ex_decode :: "string \<Rightarrow> string \<Rightarrow> err + ex_object list" where
  "ex_decode manifest name =
     (if manifest = ''widgets'' then Inr [ConfigMapObject ''settings'', CRDObject ex_widgets]
      else if manifest = ''widgets+gadgets'' then Inr [CRDObject ex_widgets, CRDObject ex_gadgets]
      else Inl (External ''malformed manifest''))"

definition ex_R :: "(ex_object, ex_object, nat CustomResourceDefinition) runtime" where
  "ex_R = \<lparr> ManifestObjects = ex_decode, GroupVersionKind = ex_gvk, GetName = ex_name,
            ToUnstructured = ex_to_unstructured, FromUnstructured = ex_from_unstructured \<rparr>"

definition ex_release :: Release where
  "ex_release = \<lparr> release_Name = ''demo'', Manifest = ''widgets'', Info_Status = StatusDeployed \<rparr>"

definition ex_release2 :: Release where
  "ex_release2 = \<lparr> release_Name = ''demo'', Manifest = ''widgets+gadgets'',
                   Info_Status = StatusDeployed \<rparr>"

text \<open>
  An action client: the extension \<^verbatim>\<open>fresh\<close> has no release; every other extension has the
  release \<^verbatim>\<open>demo\<close> with the manifest \<^verbatim>\<open>widgets\<close>; the dry run of an upgrade renders the
  manifest \<^verbatim>\<open>widgets+gadgets\<close> for the extension \<^verbatim>\<open>changed\<close> and the current one otherwise.
\<close>

definition ex_Get :: "string \<Rightarrow> get_result" where
  "ex_Get name =
     (if name = ''fresh'' then ReleaseNotFound (External ''release: not found'')
      else Found ex_release)"

definition ex_DryRun :: "string \<Rightarrow> string \<Rightarrow> nat \<Rightarrow> err + Release" where
  "ex_DryRun name ns chrt = (if name = ''changed'' then Inr ex_release2 else Inr ex_release)"

definition ex_convert :: "unit \<Rightarrow> string \<Rightarrow> err + nat" where
  "ex_convert contentFS ns = Inr 0"

definition ex_version :: "unit \<Rightarrow> err + string" where
  "ex_version b = Inr ''1.0.0''"

definition ex_act :: "string \<Rightarrow> string \<Rightarrow> nat \<Rightarrow> err + Release" where
  "ex_act name ns chrt = Inr ex_release2"

definition ex_reconcile :: "Release option \<Rightarrow> err option" where
  "ex_reconcile rel = None"

definition ex_cl :: "(unit, nat, unit, ex_object) helm_client" where
  "ex_cl = \<lparr> RegistryV1ToHelmChart = ex_convert, bundle_Version = ex_version, ac_Get = ex_Get,
             ac_Upgrade_DryRun = ex_DryRun, ac_Install = ex_act, ac_Upgrade = ex_act,
             ac_Reconcile = ex_reconcile, util_ManifestObjects = ex_decode \<rparr>"

definition ex_passes :: "Release option \<Rightarrow> err option outcome" where
  "ex_passes rel = Returns None"

definition ex_other :: applier_Preflight where
  "ex_other = \<lparr> isCRDUpgradeSafetyPreflight = False, Install = ex_passes, Upgrade = ex_passes \<rparr>"

definition ex_getter :: "ClusterExtension \<Rightarrow> err option" where
  "ex_getter ext = None"

definition ex_h :: Helm where
  "ex_h = \<lparr> ActionClientGetter = ex_getter,
            Preflights = [crdupgradesafety_Preflight ex_K ex_R ex_preflight, ex_other] \<rparr>"

definition ex_ext :: "string \<Rightarrow> ClusterExtension" where
  "ex_ext name =
     \<lparr> ext_Name = name, spec_PackageName = ''demo'', spec_Channel = '''', spec_Version = '''',
       spec_UpgradeConstraintPolicy = '''', spec_InstallNamespace = ''demo-system'',
       spec_Preflight = Some \<lparr> CRDUpgradeSafety = Some \<lparr> Disabled = True \<rparr> \<rparr> \<rparr>"

text \<open>
  A catalog: a bundle is its package, its channel, its version and its deprecation flag; a
  version range is a lower bound; higher versions sort first; the only successor of the
  installed version \<^verbatim>\<open>1\<close> is version \<^verbatim>\<open>3\<close>, which is deprecated.  The extension
  \<^verbatim>\<open>installed\<close> has version \<^verbatim>\<open>1\<close> installed, the others nothing.
\<close>

type_synonym ex_bundle = "string \<times> string \<times> nat \<times> bool"

definition ex_constraint :: "string \<Rightarrow> err + nat" where
  "ex_constraint s = (if s = ''>=2'' then Inr 2 else Inl (External ''improper constraint''))"

definition ex_newVersion :: "string \<Rightarrow> err + string" where
  "ex_newVersion s = Inr s"

definition ex_withPackageName :: "string \<Rightarrow> ex_bundle \<Rightarrow> bool" where
  "ex_withPackageName n b = (fst b = n)"

definition ex_inChannel :: "string \<Rightarrow> ex_bundle \<Rightarrow> bool" where
  "ex_inChannel c b = (fst (snd b) = c)"

definition ex_inRange :: "nat \<Rightarrow> ex_bundle \<Rightarrow> bool" where
  "ex_inRange lo b = (lo \<le> fst (snd (snd b)))"

definition ex_successorOf1 :: "ex_bundle \<Rightarrow> bool" where
  "ex_successorOf1 b = (fst (snd (snd b)) = 3)"

definition ex_successors :: "string \<Rightarrow> BundleMetadata \<Rightarrow> err + (ex_bundle \<Rightarrow> bool)" where
  "ex_successors n ib =
     (if installed_Version ib = ''1'' then Inr ex_successorOf1
      else Inl (External ''no successors''))"

definition ex_byVersion :: "ex_bundle \<Rightarrow> ex_bundle \<Rightarrow> bool" where
  "ex_byVersion b1 b2 = (fst (snd (snd b2)) < fst (snd (snd b1)))"

definition ex_deprecated :: "ex_bundle \<Rightarrow> bool" where
  "ex_deprecated b = snd (snd (snd b))"

definition ex_C :: "(ex_bundle, nat) catalog" where
  "ex_C = \<lparr> NewConstraint = ex_constraint, NewVersion = ex_newVersion,
            WithPackageName = ex_withPackageName, InChannel = ex_inChannel,
            InMastermindsSemverRange = ex_inRange, SuccessorsPredicate = ex_successors,
            ByVersion = ex_byVersion, IsDeprecated = ex_deprecated,
            UpgradeConstraintPolicyIgnore = ''Ignore'' \<rparr>"

definition ex_catalog :: "ex_bundle list" where
  "ex_catalog =
     [(''demo'', ''stable'', 1, False),
      (''demo'', ''stable'', 3, True),
      (''demo'', ''stable'', 2, False),
      (''other'', ''stable'', 9, False),
      (''demo'', ''beta'', 8, False)]"

definition ex_bundles :: "string \<Rightarrow> err + ex_bundle list" where
  "ex_bundles packageName = Inr ex_catalog"

definition ex_installed :: "ClusterExtension \<Rightarrow> err + BundleMetadata option" where
  "ex_installed ext =
     (if ext_Name ext = ''installed''
      then Inr (Some \<lparr> installed_Name = ''demo.v1'', installed_Version = ''1'' \<rparr>)
      else Inr None)"

definition ex_resolver :: "ex_bundle Resolver" where
  "ex_resolver = \<lparr> BundleProvider = ex_bundles, InstalledBundleGetter = ex_installed,
                   Validations = [] \<rparr>"

definition ex_ext_ranged :: ClusterExtension where
  "ex_ext_ranged = (ex_ext ''fresh'')\<lparr> spec_Channel := ''stable'', spec_Version := ''>=2'' \<rparr>"

section \<open>Properties of the cross-version validator\<close>

subsection \<open>The accumulator only grows\<close>

lemma tryValidations_acc:
  "tryValidations vs a b f d errs =
     (fst (tryValidations vs a b f d []), errs @ snd (tryValidations vs a b f d []))"
proof (induction vs arbitrary: d errs)
  case Nil
  then show ?case by simp
next
  case (Cons v vs)
  obtain d' ok e where v: "v d = (d', ok, e)" by (cases "v d") auto
  show ?case
  proof (cases ok)
    case True
    then show ?thesis using v by (simp split: option.splits)
  next
    case False
    show ?thesis
    proof (cases e)
      case None
      then show ?thesis using v False Cons.IH[of d' errs] by simp
    next
      case (Some x)
      then show ?thesis
        using v False Cons.IH[of d' "errs @ [FieldChange a b f x]"]
          Cons.IH[of d' "[FieldChange a b f x]"] by simp
    qed
  qed
qed

lemma validateField_acc: "validateField vs a b fd errs = errs @ validateField vs a b fd []"
  unfolding validateField_def
  by (subst tryValidations_acc) (simp split: prod.splits)

text \<open>The loop over the validations applies the change rule set to the field diff.\<close>

lemma tryValidations_outcomes:
  "tryValidations vs a b f d [] =
     (list_ex fst (outcomes vs d), recorded a b f (upToHandler (outcomes vs d)))"
proof (induction vs arbitrary: d)
  case Nil
  then show ?case by (simp add: recorded_def)
next
  case (Cons v vs)
  obtain d' ok e where v: "v d = (d', ok, e)" by (cases "v d") auto
  show ?case
  proof (cases ok)
    case True
    then show ?thesis using v by (cases e) (simp_all add: recorded_def)
  next
    case False
    have IH: "tryValidations vs a b f d' [] =
                (list_ex fst (outcomes vs d'), recorded a b f (upToHandler (outcomes vs d')))"
      by (rule Cons.IH)
    show ?thesis
    proof (cases e)
      case None
      then show ?thesis using v False IH by (simp add: recorded_def)
    next
      case (Some x)
      have "tryValidations vs a b f d' [FieldChange a b f x] =
              (list_ex fst (outcomes vs d'),
               [FieldChange a b f x] @ recorded a b f (upToHandler (outcomes vs d')))"
        by (subst tryValidations_acc) (simp add: IH)
      then show ?thesis using v False Some by (simp add: recorded_def)
    qed
  qed
qed

lemma validateField_fieldErrors: "validateField vs a b fd errs = errs @ fieldErrors vs a b fd"
  by (subst validateField_acc)
     (simp add: validateField_def fieldErrors_def tryValidations_outcomes)

lemma validateDiffs_eq:
  "validateDiffs vs a b diffs errs = errs @ concat (map (fieldErrors vs a b) diffs)"
proof (induction diffs arbitrary: errs)
  case Nil
  then show ?case by simp
next
  case (Cons fd diffs)
  show ?case by (simp add: Cons.IH validateField_fieldErrors)
qed

subsection \<open>The loops visit the ordered pairs\<close>

lemma checkPairs_append:
  "checkPairs K cvv (ps @ qs) =
     (case checkPairs K cvv ps of
        Panics \<Rightarrow> Panics
      | Returns es \<Rightarrow>
         (case checkPairs K cvv qs of Panics \<Rightarrow> Panics | Returns es' \<Rightarrow> Returns (es @ es')))"
  by (induction ps) (auto split: outcome.splits)

lemma versionB_loop_eq:
  "versionB_loop K cvv a vs errs =
     (case checkPairs K cvv (map (\<lambda>b. (a, b)) (filter (\<lambda>b. Name a \<noteq> Name b) vs)) of
        Panics \<Rightarrow> Panics
      | Returns es \<Rightarrow> Returns (errs @ es))"
proof (induction vs arbitrary: errs)
  case Nil
  then show ?case by simp
next
  case (Cons b vs)
  show ?case
    by (auto simp: Cons.IH checkPair_def validateDiffs_eq Let_def
             split: option.splits sum.splits outcome.splits)
qed

lemma versionA_loop_eq:
  "versionA_loop K cvv all vs errs =
     (case checkPairs K cvv
             (concat (map (\<lambda>a. map (\<lambda>b. (a, b)) (filter (\<lambda>b. Name a \<noteq> Name b) all)) vs)) of
        Panics \<Rightarrow> Panics
      | Returns es \<Rightarrow> Returns (errs @ es))"
proof (induction vs arbitrary: errs)
  case Nil
  then show ?case by simp
next
  case (Cons a vs)
  show ?case
    by (auto simp: Cons.IH versionB_loop_eq checkPairs_append split: outcome.splits)
qed

lemma Validate_checkPairs:
  "crossVersionValidator_Validate K cvv crd =
     (case checkPairs K cvv (orderedPairs (spec_Versions crd)) of
        Panics \<Rightarrow> Panics
      | Returns es \<Rightarrow> Returns (errors_Join es))"
  by (simp add: crossVersionValidator_Validate_def versionA_loop_eq orderedPairs_def
           split: outcome.splits)

lemma set_orderedPairs:
  "set (orderedPairs vs) = {(a, b). a \<in> set vs \<and> b \<in> set vs \<and> Name a \<noteq> Name b}"
  by (auto simp: orderedPairs_def)

lemma checkPair_Returns:
  "Schema (fst ab) \<noteq> None \<Longrightarrow> Schema (snd ab) \<noteq> None \<Longrightarrow> checkPair K cvv ab = Returns (pairErrors K cvv ab)"
  by (auto simp: checkPair_def pairErrors_def split: option.splits sum.splits)

lemma checkPairs_Returns:
  "\<forall>ab \<in> set ps. Schema (fst ab) \<noteq> None \<and> Schema (snd ab) \<noteq> None \<Longrightarrow>
   checkPairs K cvv ps = Returns (concat (map (pairErrors K cvv) ps))"
  by (induction ps) (simp_all add: checkPair_Returns)

lemma checkPairs_member:
  "checkPairs K cvv ps = Returns r \<Longrightarrow> ab \<in> set ps \<Longrightarrow> set (pairErrors K cvv ab) \<subseteq> set r"
proof (induction ps arbitrary: r)
  case Nil
  then show ?case by simp
next
  case (Cons p ps)
  from Cons.prems(1) obtain es es' where
    p: "checkPair K cvv p = Returns es" and ps: "checkPairs K cvv ps = Returns es'"
    and r: "r = es @ es'"
    by (auto split: outcome.splits)
  show ?case
  proof (cases "ab = p")
    case True
    then show ?thesis using p r by (simp add: pairErrors_def)
  next
    case False
    then have "ab \<in> set ps" using Cons.prems(2) by simp
    then show ?thesis using Cons.IH[OF ps] r by auto
  qed
qed

subsection \<open>One field diff\<close>

lemma tryValidations_noneHandles:
  "noneHandles vs d \<Longrightarrow> tryValidations vs a b f d [] = (False, recorded a b f (outcomes vs d))"
proof (induction vs arbitrary: d)
  case Nil
  then show ?case by (simp add: recorded_def)
next
  case (Cons v vs)
  obtain d' ok e where v: "v d = (d', ok, e)" by (cases "v d") auto
  with Cons.prems have nok: "\<not> ok" and rest: "noneHandles vs d'" by simp_all
  have IH: "tryValidations vs a b f d' [] = (False, recorded a b f (outcomes vs d'))"
    by (rule Cons.IH[OF rest])
  show ?case
  proof (cases e)
    case None
    then show ?thesis using v nok IH by (simp add: recorded_def)
  next
    case (Some x)
    have "tryValidations vs a b f d' [FieldChange a b f x] =
            (False, [FieldChange a b f x] @ recorded a b f (outcomes vs d'))"
      by (subst tryValidations_acc) (simp add: IH)
    then show ?thesis using v nok Some by (simp add: recorded_def)
  qed
qed

lemma validateField_noneHandles:
  "noneHandles vs d \<Longrightarrow>
   validateField vs a b (f, d) [] = recorded a b f (outcomes vs d) @ [UnknownChange a b f]"
  by (simp add: validateField_def tryValidations_noneHandles)

lemma unknown_in_pairErrors:
  assumes "Schema vA = Some sA" "Schema vB = Some sB"
    and "CalculateFlatSchemaDiff K (FlattenSchema K sA) (FlattenSchema K sB) = Inr diffs"
    and "(field, d) \<in> set diffs"
    and "noneHandles (changeValidations cvv) d"
  shows "UnknownChange (Name vA) (Name vB) field \<in> set (pairErrors K cvv (vA, vB))"
proof -
  have "UnknownChange (Name vA) (Name vB) field
          \<in> set (validateField (changeValidations cvv) (Name vA) (Name vB) (field, d) [])"
    using assms(5) by (simp add: validateField_noneHandles)
  then have "UnknownChange (Name vA) (Name vB) field
          \<in> set (fieldErrors (changeValidations cvv) (Name vA) (Name vB) (field, d))"
    by (simp add: validateField_fieldErrors)
  then show ?thesis
    using assms(1-4) by (auto simp: pairErrors_def checkPair_def)
qed

lemma length_outcomes: "length (outcomes vs d) = length vs"
  by (induction vs arbitrary: d) (auto split: prod.splits)

lemma outcomes_take: "take n (outcomes vs d) = outcomes (take n vs) d"
proof (induction vs arbitrary: d n)
  case Nil
  then show ?case by simp
next
  case (Cons v vs)
  then show ?case by (cases n) (auto split: prod.splits)
qed

lemma tryValidations_first_handler:
  assumes "i < length vs" "fst (outcomes vs d ! i)" "\<forall>j<i. \<not> fst (outcomes vs d ! j)"
  shows "tryValidations vs a b f d [] = (True, recorded a b f (take (Suc i) (outcomes vs d)))"
  using assms
proof (induction vs arbitrary: d i)
  case Nil
  then show ?case by simp
next
  case (Cons v vs)
  obtain d' ok e where v: "v d = (d', ok, e)" by (cases "v d") auto
  show ?case
  proof (cases i)
    case 0
    then have "ok" using Cons.prems(2) v by simp
    then show ?thesis
      using v 0 by (cases e) (simp_all add: recorded_def)
  next
    case (Suc k)
    have nok: "\<not> ok" using Cons.prems(3) v Suc by (auto dest: spec[of _ 0])
    have k: "k < length vs" using Cons.prems(1) Suc by simp
    have hk: "fst (outcomes vs d' ! k)" using Cons.prems(2) v Suc by simp
    have before: "\<forall>j<k. \<not> fst (outcomes vs d' ! j)"
    proof (intro allI impI)
      fix j assume "j < k"
      then have "Suc j < i" using Suc by simp
      then have "\<not> fst (outcomes (v # vs) d ! Suc j)" using Cons.prems(3) by blast
      then show "\<not> fst (outcomes vs d' ! j)" using v by simp
    qed
    have IH: "tryValidations vs a b f d' [] = (True, recorded a b f (take (Suc k) (outcomes vs d')))"
      by (rule Cons.IH[OF k hk before])
    show ?thesis
    proof (cases e)
      case None
      then show ?thesis using v nok IH Suc by (simp add: recorded_def)
    next
      case (Some x)
      have "tryValidations vs a b f d' [FieldChange a b f x] =
              (True, [FieldChange a b f x] @ recorded a b f (take (Suc k) (outcomes vs d')))"
        by (subst tryValidations_acc) (simp add: IH)
      then show ?thesis
        using v nok Some Suc by (simp add: recorded_def)
    qed
  qed
qed

lemma crossVersionValidator_fold_applyOption:
  "crossVersionValidator (fold applyOption os p) = crossVersionValidator p"
proof (induction os arbitrary: p)
  case Nil
  then show ?case by simp
next
  case (Cons opt os)
  then show ?case by (cases opt) simp
qed

lemma changeValidations_NewPreflight:
  "changeValidations (crossVersionValidator (NewPreflight K crdCli opts)) =
     map (ChangeValidationFunc K) declaredChangeValidations"
  by (simp add: NewPreflight_def crossVersionValidator_fold_applyOption
        declaredChangeValidations_def)

subsection \<open>Deny by default\<close>

text \<open>
  C1.  Take two declared versions with different names whose schemas are present and whose
  diff is computed, and a field diff of theirs that no change validation of the sequence
  claims.  Then the cross-version validator never returns nil: whatever it returns is a
  joined error that holds the error "version A compared to version B, field F has unknown
  change, refusing to determine that change is safe" for these versions and this field; the
  loop body appends that error for the field; and when every declared version has a schema
  (so that no dereference panics) the validator does return such an error.
\<close>

theorem unrecognized_change_is_an_error:
  assumes "vA \<in> set (spec_Versions crd)" and "vB \<in> set (spec_Versions crd)"
    and "Name vA \<noteq> Name vB"
    and "Schema vA = Some sA" and "Schema vB = Some sB"
    and "CalculateFlatSchemaDiff K (FlattenSchema K sA) (FlattenSchema K sB) = Inr diffs"
    and "(field, d) \<in> set diffs"
    and "noneHandles (changeValidations cvv) d"
  shows "crossVersionValidator_Validate K cvv crd \<noteq> Returns None \<and>
         (\<forall>r. crossVersionValidator_Validate K cvv crd = Returns r \<longrightarrow>
              (\<exists>errs. r = Some (Joined errs) \<and>
                      UnknownChange (Name vA) (Name vB) field \<in> set errs)) \<and>
         UnknownChange (Name vA) (Name vB) field
           \<in> set (validateField (changeValidations cvv) (Name vA) (Name vB) (field, d) errs0) \<and>
         ((\<forall>v \<in> set (spec_Versions crd). Schema v \<noteq> None) \<longrightarrow>
              (\<exists>errs. crossVersionValidator_Validate K cvv crd = Returns (Some (Joined errs)) \<and>
                      UnknownChange (Name vA) (Name vB) field \<in> set errs))"
proof -
  let ?u = "UnknownChange (Name vA) (Name vB) field"
  let ?ps = "orderedPairs (spec_Versions crd)"
  have pair: "(vA, vB) \<in> set ?ps"
    using assms(1-3) by (simp add: set_orderedPairs)
  have u: "?u \<in> set (pairErrors K cvv (vA, vB))"
    by (rule unknown_in_pairErrors[OF assms(4-8)])
  have returned: "\<exists>errs. r = Some (Joined errs) \<and> ?u \<in> set errs"
    if "crossVersionValidator_Validate K cvv crd = Returns r" for r
  proof -
    from that obtain es where es: "checkPairs K cvv ?ps = Returns es" and r: "r = errors_Join es"
      by (auto simp: Validate_checkPairs split: outcome.splits)
    have "?u \<in> set es" using checkPairs_member[OF es pair] u by blast
    then show ?thesis using r by (auto simp: errors_Join_def)
  qed
  have field_level:
    "?u \<in> set (validateField (changeValidations cvv) (Name vA) (Name vB) (field, d) errs0)"
    by (subst validateField_acc) (simp add: validateField_noneHandles[OF assms(8)])
  have total: "\<exists>errs. crossVersionValidator_Validate K cvv crd = Returns (Some (Joined errs)) \<and>
                      ?u \<in> set errs"
    if all: "\<forall>v \<in> set (spec_Versions crd). Schema v \<noteq> None"
  proof -
    have "\<forall>ab \<in> set ?ps. Schema (fst ab) \<noteq> None \<and> Schema (snd ab) \<noteq> None"
      using all by (auto simp: set_orderedPairs)
    then have "checkPairs K cvv ?ps = Returns (concat (map (pairErrors K cvv) ?ps))"
      by (rule checkPairs_Returns)
    then obtain r where "crossVersionValidator_Validate K cvv crd = Returns r"
      by (simp add: Validate_checkPairs)
    then show ?thesis using returned by blast
  qed
  from returned have "crossVersionValidator_Validate K cvv crd \<noteq> Returns None" by blast
  with returned field_level total show ?thesis by blast
qed

theorem unrecognized_change_is_an_error_witness:
  "ex_v1 \<in> set (spec_Versions ex_widgets) \<and> ex_v2 \<in> set (spec_Versions ex_widgets) \<and>
   Name ex_v1 \<noteq> Name ex_v2 \<and> Schema ex_v1 = Some 10 \<and> Schema ex_v2 = Some 20 \<and>
   CalculateFlatSchemaDiff ex_K (FlattenSchema ex_K 10) (FlattenSchema ex_K 20)
     = Inr [(''spec.size'', 20)] \<and>
   (''spec.size'', 20) \<in> set [(''spec.size'', 20 :: nat)] \<and>
   noneHandles (changeValidations ex_cvv_declining) 20 \<and>
   crossVersionValidator_Validate ex_K ex_cvv_declining ex_widgets \<noteq> Returns None \<and>
   UnknownChange ''v1'' ''v2'' ''spec.size''
     \<in> set (validateField (changeValidations ex_cvv_declining) ''v1'' ''v2'' (''spec.size'', 20) [])"
proof -
  have h1: "ex_v1 \<in> set (spec_Versions ex_widgets)" by (simp add: ex_widgets_def)
  have h2: "ex_v2 \<in> set (spec_Versions ex_widgets)" by (simp add: ex_widgets_def)
  have h3: "Name ex_v1 \<noteq> Name ex_v2" by (simp add: ex_v1_def ex_v2_def)
  have h4: "Schema ex_v1 = Some 10" by (simp add: ex_v1_def)
  have h5: "Schema ex_v2 = Some 20" by (simp add: ex_v2_def)
  have h6: "CalculateFlatSchemaDiff ex_K (FlattenSchema ex_K 10) (FlattenSchema ex_K 20)
              = Inr [(''spec.size'', 20)]"
    by (simp add: ex_K_def ex_diff_def ex_flatten_def)
  have h7: "(''spec.size'', 20) \<in> set [(''spec.size'', 20 :: nat)]" by simp
  have h8: "noneHandles (changeValidations ex_cvv_declining) 20"
    by (simp add: ex_cvv_declining_def ex_declines_def)
  have n1: "Name ex_v1 = ''v1''" by (simp add: ex_v1_def)
  have n2: "Name ex_v2 = ''v2''" by (simp add: ex_v2_def)
  from unrecognized_change_is_an_error[OF h1 h2 h3 h4 h5 h6 h7 h8, of "[]"]
  show ?thesis using h1 h2 h3 h4 h5 h6 h8 unfolding n1 n2 by simp
qed

subsection \<open>Every ordered pair of distinct versions\<close>



subsection \<open>When no pair of versions differs\<close>

text \<open>
  If every declared version has a schema and the diff of every ordered pair of versions
  with different names is computed and empty, the cross-version validator returns nil.
  Whether the diff of two identical flattened schemas is empty is a property of the schema
  library, outside the sources.
\<close>

lemma cross_version_nil_when_no_diffs:
  assumes "\<forall>v \<in> set (spec_Versions crd). \<exists>s. Schema v = Some s"
    and "\<forall>a \<in> set (spec_Versions crd). \<forall>b \<in> set (spec_Versions crd). \<forall>sA sB.
           Name a \<noteq> Name b \<longrightarrow> Schema a = Some sA \<longrightarrow> Schema b = Some sB \<longrightarrow>
             CalculateFlatSchemaDiff K (FlattenSchema K sA) (FlattenSchema K sB) = Inr []"
  shows "crossVersionValidator_Validate K cvv crd = Returns None"
proof -
  let ?ps = "orderedPairs (spec_Versions crd)"
  have present: "\<forall>ab \<in> set ?ps. Schema (fst ab) \<noteq> None \<and> Schema (snd ab) \<noteq> None"
    using assms(1) by (fastforce simp: set_orderedPairs)
  have empty: "pairErrors K cvv ab = []" if "ab \<in> set ?ps" for ab
  proof -
    obtain a b where ab: "ab = (a, b)" by (cases ab)
    with that have m: "a \<in> set (spec_Versions crd)" "b \<in> set (spec_Versions crd)"
      "Name a \<noteq> Name b" by (simp_all add: set_orderedPairs)
    from assms(1) m obtain sA sB where s: "Schema a = Some sA" "Schema b = Some sB" by blast
    have "CalculateFlatSchemaDiff K (FlattenSchema K sA) (FlattenSchema K sB) = Inr []"
      using assms(2) m s by blast
    then show ?thesis using s ab by (simp add: pairErrors_def checkPair_def)
  qed
  have "concat (map (pairErrors K cvv) ?ps) = []" using empty by simp
  then have "checkPairs K cvv ?ps = Returns []"
    using checkPairs_Returns[OF present, of K cvv] by simp
  then show ?thesis by (simp add: Validate_checkPairs errors_Join_def)
qed

subsection \<open>Dispatch over the change validations\<close>

lemma recorded_nothing:
  "\<forall>j<length os. snd (os ! j) = None \<Longrightarrow> recorded a b f os = []"
proof (induction os)
  case Nil
  then show ?case by (simp add: recorded_def)
next
  case (Cons x xs)
  have x: "snd x = None" using Cons.prems by (auto dest: spec[of _ 0])
  have "\<forall>j<length xs. snd (xs ! j) = None"
  proof (intro allI impI)
    fix j assume "j < length xs"
    then have "snd ((x # xs) ! Suc j) = None" using Cons.prems by auto
    then show "snd (xs ! j) = None" by simp
  qed
  then have "recorded a b f xs = []" by (rule Cons.IH)
  then show ?case using x by (simp add: recorded_def)
qed

lemma recorded_only_last:
  assumes "i < length os" and "\<forall>j<i. snd (os ! j) = None"
  shows "recorded a b f (take (Suc i) os) =
           (case snd (os ! i) of None \<Rightarrow> [] | Some e \<Rightarrow> [FieldChange a b f e])"
proof -
  have "recorded a b f (take i os) = []"
    using assms by (intro recorded_nothing) simp
  moreover have "recorded a b f (take (Suc i) os) =
      recorded a b f (take i os) @ recorded a b f [os ! i]"
    using assms(1) by (simp add: recorded_def take_Suc_conv_app_nth)
  ultimately show ?thesis by (simp add: recorded_def)
qed

lemma validateField_first_handler:
  assumes "i < length vs" "fst (outcomes vs d ! i)" "\<forall>j<i. \<not> fst (outcomes vs d ! j)"
  shows "validateField vs a b (f, d) errs = errs @ recorded a b f (take (Suc i) (outcomes vs d))"
  by (subst validateField_acc)
     (simp add: validateField_def tryValidations_first_handler[OF assms])

text \<open>
  C4, as the code has it.  The cross-version validator built by \<^verbatim>\<open>NewPreflight\<close> holds the
  change validations in the declared order Enum, RequiredField, Maximum, MaximumItems,
  MaximumLength, MaximumProperties, Minimum, MinimumItems, MinimumLength,
  MinimumProperties, DefaultValue, whatever options are given, and the change validator of
  the default validator names them in the same order.  For a field diff, let the
  validation at position \<open>i\<close> be the first that returns \<^verbatim>\<open>handled = true\<close>.  Then what is
  appended for the field is every non-nil error returned by the validations up to and
  including position \<open>i\<close>, in order; the validations after position \<open>i\<close> play no part; no
  unknown-change error is added; and when the validations before position \<open>i\<close> returned no
  error, exactly the error of the handling validation is appended, nothing when it is nil.
\<close>

theorem first_handler_ends_evaluation:
  "changeValidations (crossVersionValidator (NewPreflight K crdCli opts)) =
     map (ChangeValidationFunc K)
       [EnumChangeValidation, RequiredFieldChangeValidation, MaximumChangeValidation,
        MaximumItemsChangeValidation, MaximumLengthChangeValidation,
        MaximumPropertiesChangeValidation, MinimumChangeValidation,
        MinimumItemsChangeValidation, MinimumLengthChangeValidation,
        MinimumPropertiesChangeValidation, DefaultValueChangeValidation] \<and>
   validator (NewPreflight K crdCli []) =
     [NoScopeChange, NoStoredVersionRemoved, NoExistingFieldRemoved,
      ChangeValidator
        [EnumChangeValidation, RequiredFieldChangeValidation, MaximumChangeValidation,
         MaximumItemsChangeValidation, MaximumLengthChangeValidation,
         MaximumPropertiesChangeValidation, MinimumChangeValidation,
         MinimumItemsChangeValidation, MinimumLengthChangeValidation,
         MinimumPropertiesChangeValidation, DefaultValueChangeValidation]] \<and>
   (i < length vs \<and> fst (outcomes vs d ! i) \<and> (\<forall>j<i. \<not> fst (outcomes vs d ! j)) \<longrightarrow>
      validateField vs a b (f, d) errs = errs @ recorded a b f (take (Suc i) (outcomes vs d)) \<and>
      validateField vs a b (f, d) errs = validateField (take (Suc i) vs) a b (f, d) errs \<and>
      ((\<forall>j<i. snd (outcomes vs d ! j) = None) \<longrightarrow>
         validateField vs a b (f, d) errs =
           errs @ (case snd (outcomes vs d ! i) of None \<Rightarrow> [] | Some e \<Rightarrow> [FieldChange a b f e])))"
proof -
  have order: "changeValidations (crossVersionValidator (NewPreflight K crdCli opts)) =
     map (ChangeValidationFunc K)
       [EnumChangeValidation, RequiredFieldChangeValidation, MaximumChangeValidation,
        MaximumItemsChangeValidation, MaximumLengthChangeValidation,
        MaximumPropertiesChangeValidation, MinimumChangeValidation,
        MinimumItemsChangeValidation, MinimumLengthChangeValidation,
        MinimumPropertiesChangeValidation, DefaultValueChangeValidation]"
    using changeValidations_NewPreflight[of K crdCli opts]
    by (simp only: declaredChangeValidations_def)
  have dispatch:
    "validateField vs a b (f, d) errs = errs @ recorded a b f (take (Suc i) (outcomes vs d)) \<and>
     validateField vs a b (f, d) errs = validateField (take (Suc i) vs) a b (f, d) errs \<and>
     ((\<forall>j<i. snd (outcomes vs d ! j) = None) \<longrightarrow>
        validateField vs a b (f, d) errs =
          errs @ (case snd (outcomes vs d ! i) of None \<Rightarrow> [] | Some e \<Rightarrow> [FieldChange a b f e]))"
    if i: "i < length vs" and h: "fst (outcomes vs d ! i)"
      and before: "\<forall>j<i. \<not> fst (outcomes vs d ! j)"
  proof -
    let ?ws = "take (Suc i) vs"
    have full: "validateField vs a b (f, d) errs
                  = errs @ recorded a b f (take (Suc i) (outcomes vs d))"
      by (rule validateField_first_handler[OF i h before])
    have os: "outcomes ?ws d = take (Suc i) (outcomes vs d)"
      by (simp add: outcomes_take)
    have i': "i < length ?ws" using i by simp
    have h': "fst (outcomes ?ws d ! i)" using h by (simp add: os)
    have before': "\<forall>j<i. \<not> fst (outcomes ?ws d ! j)" using before by (simp add: os)
    have "validateField ?ws a b (f, d) errs
            = errs @ recorded a b f (take (Suc i) (outcomes ?ws d))"
      by (rule validateField_first_handler[OF i' h' before'])
    then have cut: "validateField vs a b (f, d) errs = validateField ?ws a b (f, d) errs"
      using full by (simp add: os)
    have len: "i < length (outcomes vs d)" using i by (simp add: length_outcomes)
    have only: "validateField vs a b (f, d) errs =
          errs @ (case snd (outcomes vs d ! i) of None \<Rightarrow> [] | Some e \<Rightarrow> [FieldChange a b f e])"
      if "\<forall>j<i. snd (outcomes vs d ! j) = None"
      using full recorded_only_last[OF len that] by simp
    show ?thesis using full cut only by blast
  qed
  have default: "validator (NewPreflight K crdCli []) =
     [NoScopeChange, NoStoredVersionRemoved, NoExistingFieldRemoved,
      ChangeValidator
        [EnumChangeValidation, RequiredFieldChangeValidation, MaximumChangeValidation,
         MaximumItemsChangeValidation, MaximumLengthChangeValidation,
         MaximumPropertiesChangeValidation, MinimumChangeValidation,
         MinimumItemsChangeValidation, MinimumLengthChangeValidation,
         MinimumPropertiesChangeValidation, DefaultValueChangeValidation]]"
    by (simp add: NewPreflight_def)
  show ?thesis using order default dispatch by blast
qed

theorem first_handler_ends_evaluation_witness:
  "2 < length (changeValidations (crossVersionValidator ex_preflight)) \<and>
   \<not> fst (outcomes (changeValidations (crossVersionValidator ex_preflight)) 20 ! 0) \<and>
   \<not> fst (outcomes (changeValidations (crossVersionValidator ex_preflight)) 20 ! 1) \<and>
   fst (outcomes (changeValidations (crossVersionValidator ex_preflight)) 20 ! 2) \<and>
   validateField (changeValidations (crossVersionValidator ex_preflight))
       ''v1'' ''v2'' (''spec.size'', 20) []
     = recorded ''v1'' ''v2'' ''spec.size''
         (take 3 (outcomes (changeValidations (crossVersionValidator ex_preflight)) 20))"
proof -
  let ?vs = "changeValidations (crossVersionValidator ex_preflight)"
  have os: "take 3 (outcomes ?vs 20) =
              [(False, Some (External ''enum value removed'')), (False, None), (True, None)]"
    by (simp add: ex_preflight_def NewPreflight_def ex_K_def ex_rule_def
          ex_complains_def ex_declines_def ex_accepts_def)
  have len: "2 < length ?vs" by (simp add: ex_preflight_def NewPreflight_def)
  have len': "2 < length (outcomes ?vs 20)" using len by (simp add: length_outcomes)
  have nth: "outcomes ?vs 20 ! j = take 3 (outcomes ?vs 20) ! j" if "j < 3" for j
    using that by simp
  have o0: "\<not> fst (outcomes ?vs 20 ! 0)" by (simp add: nth os)
  have o1: "\<not> fst (outcomes ?vs 20 ! 1)" by (simp add: nth os)
  have o2: "fst (outcomes ?vs 20 ! 2)" by (simp add: nth os)
  have before: "\<forall>j<2. \<not> fst (outcomes ?vs 20 ! j)"
    using o0 o1 by (auto simp: less_Suc_eq numeral_2_eq_2)
  from first_handler_ends_evaluation[of ex_K ex_crdClient "[]" 2 ?vs 20 "''v1''" "''v2''"
      "''spec.size''" "[]"]
  have "validateField ?vs ''v1'' ''v2'' (''spec.size'', 20) []
          = recorded ''v1'' ''v2'' ''spec.size'' (take (Suc 2) (outcomes ?vs 20))"
    using len o2 before by simp
  then show ?thesis using len o0 o1 o2 by (simp add: eval_nat_numeral)
qed

text \<open>
  C4, as stated, fails.  With the validations of \<^verbatim>\<open>NewPreflight\<close> over the small instance,
  the Enum validation returns \<^verbatim>\<open>handled = false\<close> with an error, the RequiredField
  validation declines, and the Maximum validation is the first to return
  \<^verbatim>\<open>handled = true\<close>, with a nil error.  What is recorded for the field is not that nil
  error but the error of the Enum validation.
\<close>

theorem handler_error_alone_counterexample:
  "outcomes (changeValidations (crossVersionValidator ex_preflight)) 20 ! 0
     = (False, Some (External ''enum value removed'')) \<and>
   outcomes (changeValidations (crossVersionValidator ex_preflight)) 20 ! 1 = (False, None) \<and>
   outcomes (changeValidations (crossVersionValidator ex_preflight)) 20 ! 2 = (True, None) \<and>
   validateField (changeValidations (crossVersionValidator ex_preflight))
       ''v1'' ''v2'' (''spec.size'', 20) []
     = [FieldChange ''v1'' ''v2'' ''spec.size'' (External ''enum value removed'')] \<and>
   validateField (changeValidations (crossVersionValidator ex_preflight))
       ''v1'' ''v2'' (''spec.size'', 20) []
     \<noteq> (case snd (outcomes (changeValidations (crossVersionValidator ex_preflight)) 20 ! 2) of
          None \<Rightarrow> []
        | Some e \<Rightarrow> [FieldChange ''v1'' ''v2'' ''spec.size'' e])"
  by (simp add: ex_preflight_def NewPreflight_def ex_K_def ex_rule_def validateField_def
        ex_complains_def ex_declines_def ex_accepts_def)

section \<open>Properties of the preflight's Upgrade\<close>

lemma Upgrade_loop_goesOn:
  "\<forall>obj \<in> set objs. goesOn K R p obj \<Longrightarrow>
   Upgrade_loop K R p objs errs tr =
     (Returns (errors_Join (errs @ concat (map (objectFailures K R p) objs))),
      tr @ concat (map (\<lambda>obj. snd (checkObject K R p obj)) objs))"
proof (induction objs arbitrary: errs tr)
  case Nil
  then show ?case by simp
next
  case (Cons obj objs)
  obtain v evs where c: "checkObject K R p obj = (v, evs)" by (cases "checkObject K R p obj")
  have rest: "\<forall>obj \<in> set objs. goesOn K R p obj" using Cons.prems by simp
  have "goesOn K R p obj" using Cons.prems by simp
  then consider "v = NotCRD" | es where "v = Failures es"
    using c by (cases v) (simp_all add: goesOn_def)
  then show ?case
  proof cases
    case 1
    then show ?thesis using c Cons.IH[OF rest] by (simp add: objectFailures_def)
  next
    case 2
    then show ?thesis using c Cons.IH[OF rest] by (simp add: objectFailures_def)
  qed
qed

lemma Upgrade_loop_append:
  "\<forall>obj \<in> set pre. goesOn K R p obj \<Longrightarrow>
   Upgrade_loop K R p (pre @ objs) errs tr =
     Upgrade_loop K R p objs (errs @ concat (map (objectFailures K R p) pre))
       (tr @ concat (map (\<lambda>obj. snd (checkObject K R p obj)) pre))"
proof (induction pre arbitrary: errs tr)
  case Nil
  then show ?case by simp
next
  case (Cons obj pre)
  obtain v evs where c: "checkObject K R p obj = (v, evs)" by (cases "checkObject K R p obj")
  have rest: "\<forall>obj \<in> set pre. goesOn K R p obj" using Cons.prems by simp
  have "goesOn K R p obj" using Cons.prems by simp
  then consider "v = NotCRD" | es where "v = Failures es"
    using c by (cases v) (simp_all add: goesOn_def)
  then show ?case
  proof cases
    case 1
    then show ?thesis using c Cons.IH[OF rest] by (simp add: objectFailures_def)
  next
    case 2
    then show ?thesis using c Cons.IH[OF rest] by (simp add: objectFailures_def)
  qed
qed

lemma Upgrade_loop_nil_only_if:
  "fst (Upgrade_loop K R p objs errs tr) = Returns None \<Longrightarrow>
   errs = [] \<and> (\<forall>obj \<in> set objs. goesOn K R p obj \<and> objectFailures K R p obj = [])"
proof (induction objs arbitrary: errs tr)
  case Nil
  then show ?case by (simp add: errors_Join_def split: if_splits)
next
  case (Cons obj objs)
  obtain v evs where c: "checkObject K R p obj = (v, evs)" by (cases "checkObject K R p obj")
  show ?case
  proof (cases v)
    case NotCRD
    then show ?thesis
      using c Cons.prems Cons.IH[of errs "tr @ evs"] by (simp add: goesOn_def objectFailures_def)
  next
    case (Fatal e)
    then show ?thesis using c Cons.prems by simp
  next
    case Panicked
    then show ?thesis using c Cons.prems by simp
  next
    case (Failures es)
    then show ?thesis
      using c Cons.prems Cons.IH[of "errs @ es" "tr @ evs"]
      by (simp add: goesOn_def objectFailures_def)
  qed
qed

lemma Upgrade_loop_stops:
  "obj \<in> set objs \<Longrightarrow> \<not> goesOn K R p obj \<Longrightarrow>
   fst (Upgrade_loop K R p objs errs tr) = Panics \<or>
   (\<exists>x \<in> set objs. \<exists>e. fst (checkObject K R p x) = Fatal e \<and>
       fst (Upgrade_loop K R p objs errs tr) = Returns (Some e))"
proof (induction objs arbitrary: errs tr)
  case Nil
  then show ?case by simp
next
  case (Cons y objs)
  obtain v evs where c: "checkObject K R p y = (v, evs)" by (cases "checkObject K R p y")
  show ?case
  proof (cases v)
    case NotCRD
    then have "obj \<in> set objs" using Cons.prems c by (auto simp: goesOn_def)
    from Cons.IH[OF this Cons.prems(2), of errs "tr @ evs"] show ?thesis
      using c NotCRD by auto
  next
    case (Fatal e)
    then show ?thesis using c by auto
  next
    case Panicked
    then show ?thesis using c by simp
  next
    case (Failures es)
    then have "obj \<in> set objs" using Cons.prems c by (auto simp: goesOn_def)
    from Cons.IH[OF this Cons.prems(2), of "errs @ es" "tr @ evs"] show ?thesis
      using c Failures by auto
  qed
qed

lemma checkObject_Fatal_not_Joined:
  "fst (checkObject K R p obj) = Fatal e \<Longrightarrow> e \<noteq> Joined errs"
  by (auto simp: checkObject_def Let_def split: if_splits sum.splits outcome.splits option.splits)

lemma checkObject_fetch_fails:
  assumes "GroupVersionKind R obj = CustomResourceDefinitionGVK"
    and "ToUnstructured R obj = Inr uMap" and "FromUnstructured R uMap = Inr newCrd"
    and "crdClient p (metadata_Name newCrd) = Inl e"
  shows "checkObject K R p obj =
           (Fatal (GettingExistingCRD (metadata_Name newCrd) e), [CRDGet (metadata_Name newCrd)])"
  using assms by (simp add: checkObject_def)

lemma objectFailures_checked:
  assumes "GroupVersionKind R obj = CustomResourceDefinitionGVK"
    and "ToUnstructured R obj = Inr uMap" and "FromUnstructured R uMap = Inr newCrd"
    and "crdClient p (metadata_Name newCrd) = Inr oldCrd"
    and "crossVersionValidator_Validate K (crossVersionValidator p) newCrd = Returns r"
  shows "objectFailures K R p obj =
           (case Validator_Validate K (validator p) oldCrd newCrd of
              None \<Rightarrow> []
            | Some e \<Rightarrow> [ValidatingUpgradeFailed (metadata_Name newCrd) e]) @
           (case r of
              None \<Rightarrow> []
            | Some e \<Rightarrow> [CrossVersionValidationFailed (metadata_Name newCrd) e])"
  using assms by (simp add: objectFailures_def checkObject_def Let_def split: option.splits)

lemma checkObject_not_CRD:
  "GroupVersionKind R obj \<noteq> CustomResourceDefinitionGVK \<Longrightarrow> checkObject K R p obj = (NotCRD, [])"
  by (simp add: checkObject_def)

lemma checkObject_ToUnstructured_fails:
  "GroupVersionKind R obj = CustomResourceDefinitionGVK \<Longrightarrow> ToUnstructured R obj = Inl e \<Longrightarrow>
   checkObject K R p obj = (Fatal (ConvertingToUnstructured (GetName R obj) e), [])"
  by (simp add: checkObject_def)

lemma checkObject_FromUnstructured_fails:
  "GroupVersionKind R obj = CustomResourceDefinitionGVK \<Longrightarrow> ToUnstructured R obj = Inr uMap \<Longrightarrow>
   FromUnstructured R uMap = Inl e \<Longrightarrow>
   checkObject K R p obj = (Fatal (ConvertingToCRD e), [])"
  by (simp add: checkObject_def)

lemma goesOn_iff:
  "goesOn K R p obj \<longleftrightarrow>
     GroupVersionKind R obj \<noteq> CustomResourceDefinitionGVK \<or>
     (\<exists>uMap newCrd oldCrd.
        ToUnstructured R obj = Inr uMap \<and> FromUnstructured R uMap = Inr newCrd \<and>
        crdClient p (metadata_Name newCrd) = Inr oldCrd \<and>
        crossVersionValidator_Validate K (crossVersionValidator p) newCrd \<noteq> Panics)"
  by (auto simp: goesOn_def checkObject_def Let_def
           split: sum.splits outcome.splits option.splits)

lemma Validate_no_panic:
  assumes "\<forall>v \<in> set (spec_Versions crd). Schema v \<noteq> None"
  shows "crossVersionValidator_Validate K cvv crd \<noteq> Panics"
proof -
  have "\<forall>ab \<in> set (orderedPairs (spec_Versions crd)).
          Schema (fst ab) \<noteq> None \<and> Schema (snd ab) \<noteq> None"
    using assms by (auto simp: set_orderedPairs)
  then have "checkPairs K cvv (orderedPairs (spec_Versions crd)) =
               Returns (concat (map (pairErrors K cvv) (orderedPairs (spec_Versions crd))))"
    by (rule checkPairs_Returns)
  then show ?thesis by (simp add: Validate_checkPairs)
qed

lemma Upgrade_loop_cut_short:
  assumes "\<forall>x \<in> set pre. goesOn K R p x" and "fst (checkObject K R p y) = Fatal e"
  shows "fst (Upgrade_loop K R p (pre @ y # post) errs tr) = Returns (Some e)"
proof -
  obtain evs where c: "checkObject K R p y = (Fatal e, evs)"
    using assms(2) by (cases "checkObject K R p y") simp
  show ?thesis
    using Upgrade_loop_append[OF assms(1), of "y # post" errs tr] c by simp
qed

subsection \<open>The small instance, evaluated\<close>

lemma ex_preflight_fields:
  "crdClient ex_preflight = ex_crdClient"
  "Validator_Validate ex_K = ex_validate"
  by (simp_all add: ex_preflight_def NewPreflight_def ex_K_def)

lemma ex_crossVersion_widgets:
  "crossVersionValidator_Validate ex_K (crossVersionValidator ex_preflight) ex_widgets
     = Returns (Some (Joined
         [FieldChange ''v1'' ''v2'' ''spec.size'' (External ''enum value removed''),
          FieldChange ''v2'' ''v1'' ''spec.size'' (External ''enum value removed'')]))"
  by (simp add: crossVersionValidator_Validate_def ex_widgets_def ex_v1_def ex_v2_def
        ex_preflight_def NewPreflight_def ex_K_def ex_diff_def ex_flatten_def ex_rule_def
        validateField_def ex_complains_def ex_declines_def ex_accepts_def errors_Join_def)

lemma ex_checkObject_widgets:
  "checkObject ex_K ex_R ex_preflight (CRDObject ex_widgets) =
     (Failures [ValidatingUpgradeFailed ''widgets'' (External ''unsafe change''),
        CrossVersionValidationFailed ''widgets''
          (Joined [FieldChange ''v1'' ''v2'' ''spec.size'' (External ''enum value removed''),
                   FieldChange ''v2'' ''v1'' ''spec.size'' (External ''enum value removed'')])],
      [CRDGet ''widgets'', ValidatorValidate ''widgets'', CrossVersionValidate ''widgets''])"
proof -
  have gvk: "GroupVersionKind ex_R (CRDObject ex_widgets) = CustomResourceDefinitionGVK"
    by (simp add: ex_R_def CustomResourceDefinitionGVK_def)
  have tu: "ToUnstructured ex_R (CRDObject ex_widgets) = Inr (CRDObject ex_widgets)"
    by (simp add: ex_R_def)
  have fu: "FromUnstructured ex_R (CRDObject ex_widgets) = Inr ex_widgets"
    by (simp add: ex_R_def)
  have nm: "metadata_Name ex_widgets = ''widgets''" by (simp add: ex_widgets_def)
  have old: "crdClient ex_preflight ''widgets''
               = Inr \<lparr> metadata_Name = ''widgets'', spec_Versions = [ex_v1] \<rparr>"
    by (simp add: ex_preflight_fields ex_crdClient_def)
  have val: "Validator_Validate ex_K (validator ex_preflight)
               \<lparr> metadata_Name = ''widgets'', spec_Versions = [ex_v1] \<rparr> ex_widgets
               = Some (External ''unsafe change'')"
    by (simp add: ex_preflight_fields ex_validate_def ex_widgets_def)
  show ?thesis
    by (simp add: checkObject_def gvk tu fu nm old val ex_crossVersion_widgets)
qed

lemma ex_checkObject_gadgets:
  "checkObject ex_K ex_R ex_preflight (CRDObject ex_gadgets) =
     (Fatal (GettingExistingCRD ''gadgets'' (External ''not found'')), [CRDGet ''gadgets''])"
  by (simp add: checkObject_def ex_R_def CustomResourceDefinitionGVK_def ex_preflight_fields
        ex_crdClient_def ex_gadgets_def)

lemma ex_checkObject_settings:
  "checkObject ex_K ex_R ex_preflight (ConfigMapObject ''settings'') = (NotCRD, [])"
  by (simp add: checkObject_def ex_R_def CustomResourceDefinitionGVK_def)

lemma ex_manifests:
  "ManifestObjects ex_R (Manifest ex_release) (release_Name ex_release @ ''-release-manifest'')
     = Inr [ConfigMapObject ''settings'', CRDObject ex_widgets]"
  "ManifestObjects ex_R (Manifest ex_release2) (release_Name ex_release2 @ ''-release-manifest'')
     = Inr [CRDObject ex_widgets, CRDObject ex_gadgets]"
  by (simp_all add: ex_R_def ex_release_def ex_release2_def ex_decode_def)

text \<open>
  C3, as the code has it.  Let the release manifest decode to \<open>objs\<close>.

  An object lets the loop go on when it is not a definition, or when it converts, its
  active definition is fetched and the cross-version validator returns on it; that
  validator returns whenever every version of the definition has a schema (it panics on a
  missing schema, and what \<^verbatim>\<open>Upgrade\<close> does then is left out of the statement).

  When every object lets the loop go on, \<^verbatim>\<open>Upgrade\<close> returns the join of what the
  objects contribute, in order, and nothing is dropped from it.  A definition object
  contributes the failure of the validation of the active against the proposed definition,
  wrapped with the definition's name, followed by the failure of the cross-version
  validation, wrapped likewise; another object contributes nothing.  In every case,
  \<^verbatim>\<open>Upgrade\<close> returns nil only if no object stopped the loop and none contributed a
  failure.

  When the objects before a definition let the loop go on and that definition fails to
  convert, or its active definition cannot be fetched, \<^verbatim>\<open>Upgrade\<close> returns the error of
  that conversion or fetch alone: the failures collected from the objects before are not
  part of the result.
\<close>

theorem upgrade_joins_all_failures:
  assumes "ManifestObjects R (Manifest rel) (release_Name rel @ ''-release-manifest'') = Inr objs"
  shows "((\<forall>obj \<in> set objs. goesOn K R p obj) \<longrightarrow>
            fst (Preflight_Upgrade K R p (Some rel)) =
              Returns (errors_Join (concat (map (objectFailures K R p) objs)))) \<and>
         (fst (Preflight_Upgrade K R p (Some rel)) = Returns None \<longrightarrow>
            (\<forall>obj \<in> set objs. goesOn K R p obj \<and> objectFailures K R p obj = [])) \<and>
         (GroupVersionKind R obj = CustomResourceDefinitionGVK \<and>
          ToUnstructured R obj = Inr uMap \<and> FromUnstructured R uMap = Inr newCrd \<and>
          crdClient p (metadata_Name newCrd) = Inr oldCrd \<and>
          crossVersionValidator_Validate K (crossVersionValidator p) newCrd = Returns r \<longrightarrow>
            goesOn K R p obj \<and>
            objectFailures K R p obj =
              (case Validator_Validate K (validator p) oldCrd newCrd of
                 None \<Rightarrow> []
               | Some e \<Rightarrow> [ValidatingUpgradeFailed (metadata_Name newCrd) e]) @
              (case r of
                 None \<Rightarrow> []
               | Some e \<Rightarrow> [CrossVersionValidationFailed (metadata_Name newCrd) e])) \<and>
         (goesOn K R p x \<longleftrightarrow>
            GroupVersionKind R x \<noteq> CustomResourceDefinitionGVK \<or>
            (\<exists>u c old.
               ToUnstructured R x = Inr u \<and> FromUnstructured R u = Inr c \<and>
               crdClient p (metadata_Name c) = Inr old \<and>
               crossVersionValidator_Validate K (crossVersionValidator p) c \<noteq> Panics)) \<and>
         ((\<forall>v \<in> set (spec_Versions crd). Schema v \<noteq> None) \<longrightarrow>
            crossVersionValidator_Validate K (crossVersionValidator p) crd \<noteq> Panics) \<and>
         (GroupVersionKind R x \<noteq> CustomResourceDefinitionGVK \<longrightarrow> objectFailures K R p x = []) \<and>
         (objs = pre @ y # post \<and> (\<forall>z \<in> set pre. goesOn K R p z) \<and>
          GroupVersionKind R y = CustomResourceDefinitionGVK \<longrightarrow>
            (ToUnstructured R y = Inl e1 \<longrightarrow>
               fst (Preflight_Upgrade K R p (Some rel)) =
                 Returns (Some (ConvertingToUnstructured (GetName R y) e1))) \<and>
            (ToUnstructured R y = Inr uy \<and> FromUnstructured R uy = Inl e2 \<longrightarrow>
               fst (Preflight_Upgrade K R p (Some rel)) = Returns (Some (ConvertingToCRD e2))) \<and>
            (ToUnstructured R y = Inr uy \<and> FromUnstructured R uy = Inr cy \<and>
             crdClient p (metadata_Name cy) = Inl e3 \<longrightarrow>
               fst (Preflight_Upgrade K R p (Some rel)) =
                 Returns (Some (GettingExistingCRD (metadata_Name cy) e3))))"
proof -
  have up: "Preflight_Upgrade K R p (Some rel) = Upgrade_loop K R p objs [] []"
    using assms by (simp add: Preflight_Upgrade_def)
  have a: "fst (Preflight_Upgrade K R p (Some rel)) =
             Returns (errors_Join (concat (map (objectFailures K R p) objs)))"
    if "\<forall>obj \<in> set objs. goesOn K R p obj"
    using Upgrade_loop_goesOn[OF that, of "[]" "[]"] by (simp add: up)
  have b: "\<forall>obj \<in> set objs. goesOn K R p obj \<and> objectFailures K R p obj = []"
    if "fst (Preflight_Upgrade K R p (Some rel)) = Returns None"
    using Upgrade_loop_nil_only_if[of K R p objs "[]" "[]"] that by (simp add: up)
  have c: "goesOn K R p obj \<and>
           objectFailures K R p obj =
              (case Validator_Validate K (validator p) oldCrd newCrd of
                 None \<Rightarrow> []
               | Some e \<Rightarrow> [ValidatingUpgradeFailed (metadata_Name newCrd) e]) @
              (case r of
                 None \<Rightarrow> []
               | Some e \<Rightarrow> [CrossVersionValidationFailed (metadata_Name newCrd) e])"
    if h: "GroupVersionKind R obj = CustomResourceDefinitionGVK"
      "ToUnstructured R obj = Inr uMap" "FromUnstructured R uMap = Inr newCrd"
      "crdClient p (metadata_Name newCrd) = Inr oldCrd"
      "crossVersionValidator_Validate K (crossVersionValidator p) newCrd = Returns r"
  proof -
    have "goesOn K R p obj"
      using h by (simp add: goesOn_def checkObject_def Let_def split: option.splits)
    then show ?thesis using objectFailures_checked[OF h] by simp
  qed
  have d: "goesOn K R p x \<longleftrightarrow>
            GroupVersionKind R x \<noteq> CustomResourceDefinitionGVK \<or>
            (\<exists>u c old.
               ToUnstructured R x = Inr u \<and> FromUnstructured R u = Inr c \<and>
               crdClient p (metadata_Name c) = Inr old \<and>
               crossVersionValidator_Validate K (crossVersionValidator p) c \<noteq> Panics)"
    by (rule goesOn_iff)
  have e: "crossVersionValidator_Validate K (crossVersionValidator p) crd \<noteq> Panics"
    if "\<forall>v \<in> set (spec_Versions crd). Schema v \<noteq> None"
    by (rule Validate_no_panic[OF that])
  have f: "objectFailures K R p x = []"
    if "GroupVersionKind R x \<noteq> CustomResourceDefinitionGVK"
    using checkObject_not_CRD[OF that, of K p] by (simp add: objectFailures_def)
  have g: "(ToUnstructured R y = Inl e1 \<longrightarrow>
               fst (Preflight_Upgrade K R p (Some rel)) =
                 Returns (Some (ConvertingToUnstructured (GetName R y) e1))) \<and>
            (ToUnstructured R y = Inr uy \<and> FromUnstructured R uy = Inl e2 \<longrightarrow>
               fst (Preflight_Upgrade K R p (Some rel)) = Returns (Some (ConvertingToCRD e2))) \<and>
            (ToUnstructured R y = Inr uy \<and> FromUnstructured R uy = Inr cy \<and>
             crdClient p (metadata_Name cy) = Inl e3 \<longrightarrow>
               fst (Preflight_Upgrade K R p (Some rel)) =
                 Returns (Some (GettingExistingCRD (metadata_Name cy) e3)))"
    if o: "objs = pre @ y # post" and pre: "\<forall>z \<in> set pre. goesOn K R p z"
      and gvk: "GroupVersionKind R y = CustomResourceDefinitionGVK"
  proof -
    have cut: "fst (Preflight_Upgrade K R p (Some rel)) = Returns (Some err)"
      if "fst (checkObject K R p y) = Fatal err" for err
      using Upgrade_loop_cut_short[OF pre that, of post "[]" "[]"] by (simp add: up o)
    have g1: "fst (Preflight_Upgrade K R p (Some rel)) =
                 Returns (Some (ConvertingToUnstructured (GetName R y) e1))"
      if "ToUnstructured R y = Inl e1"
      using cut checkObject_ToUnstructured_fails[OF gvk that, of K p] by simp
    have g2: "fst (Preflight_Upgrade K R p (Some rel)) = Returns (Some (ConvertingToCRD e2))"
      if "ToUnstructured R y = Inr uy \<and> FromUnstructured R uy = Inl e2"
      using cut checkObject_FromUnstructured_fails[OF gvk, of uy e2 K p] that by simp
    have g3: "fst (Preflight_Upgrade K R p (Some rel)) =
                 Returns (Some (GettingExistingCRD (metadata_Name cy) e3))"
      if "ToUnstructured R y = Inr uy \<and> FromUnstructured R uy = Inr cy \<and>
          crdClient p (metadata_Name cy) = Inl e3"
      using cut checkObject_fetch_fails[OF gvk, of uy cy p e3 K] that by simp
    show ?thesis using g1 g2 g3 by blast
  qed
  show ?thesis
    apply (intro conjI impI)
    subgoal using a by blast
    subgoal using b by blast
    subgoal using c by blast
    subgoal using c by blast
    subgoal using d by blast
    subgoal using e by blast
    subgoal using f by blast
    subgoal using g by blast
    subgoal using g by blast
    subgoal using g by blast
    done
qed

theorem upgrade_joins_all_failures_witness:
  "ManifestObjects ex_R (Manifest ex_release) (release_Name ex_release @ ''-release-manifest'')
     = Inr [ConfigMapObject ''settings'', CRDObject ex_widgets] \<and>
   goesOn ex_K ex_R ex_preflight (ConfigMapObject ''settings'') \<and>
   goesOn ex_K ex_R ex_preflight (CRDObject ex_widgets) \<and>
   fst (Preflight_Upgrade ex_K ex_R ex_preflight (Some ex_release)) =
     Returns (errors_Join (concat (map (objectFailures ex_K ex_R ex_preflight)
                                       [ConfigMapObject ''settings'', CRDObject ex_widgets]))) \<and>
   fst (Preflight_Upgrade ex_K ex_R ex_preflight (Some ex_release)) =
     Returns (Some (Joined
       [ValidatingUpgradeFailed ''widgets'' (External ''unsafe change''),
        CrossVersionValidationFailed ''widgets''
          (Joined [FieldChange ''v1'' ''v2'' ''spec.size'' (External ''enum value removed''),
                   FieldChange ''v2'' ''v1'' ''spec.size'' (External ''enum value removed'')])])) \<and>
   ManifestObjects ex_R (Manifest ex_release2) (release_Name ex_release2 @ ''-release-manifest'')
     = Inr ([CRDObject ex_widgets] @ CRDObject ex_gadgets # []) \<and>
   GroupVersionKind ex_R (CRDObject ex_gadgets) = CustomResourceDefinitionGVK \<and>
   ToUnstructured ex_R (CRDObject ex_gadgets) = Inr (CRDObject ex_gadgets) \<and>
   FromUnstructured ex_R (CRDObject ex_gadgets) = Inr ex_gadgets \<and>
   crdClient ex_preflight (metadata_Name ex_gadgets) = Inl (External ''not found'') \<and>
   fst (Preflight_Upgrade ex_K ex_R ex_preflight (Some ex_release2)) =
     Returns (Some (GettingExistingCRD ''gadgets'' (External ''not found'')))"
proof -
  note m = ex_manifests(1)
  have m2: "ManifestObjects ex_R (Manifest ex_release2)
              (release_Name ex_release2 @ ''-release-manifest'')
              = Inr ([CRDObject ex_widgets] @ CRDObject ex_gadgets # [])"
    by (simp add: ex_manifests)
  have gvk: "GroupVersionKind ex_R (CRDObject ex_gadgets) = CustomResourceDefinitionGVK"
    by (simp add: ex_R_def CustomResourceDefinitionGVK_def)
  have tu: "ToUnstructured ex_R (CRDObject ex_gadgets) = Inr (CRDObject ex_gadgets)"
    by (simp add: ex_R_def)
  have fu: "FromUnstructured ex_R (CRDObject ex_gadgets) = Inr ex_gadgets"
    by (simp add: ex_R_def)
  have get: "crdClient ex_preflight (metadata_Name ex_gadgets) = Inl (External ''not found'')"
    by (simp add: ex_preflight_fields ex_crdClient_def ex_gadgets_def)
  have nm: "metadata_Name ex_gadgets = ''gadgets''" by (simp add: ex_gadgets_def)
  have g1: "goesOn ex_K ex_R ex_preflight (ConfigMapObject ''settings'')"
    by (simp add: goesOn_def ex_checkObject_settings)
  have g2: "goesOn ex_K ex_R ex_preflight (CRDObject ex_widgets)"
    by (simp add: goesOn_def ex_checkObject_widgets)
  have all: "\<forall>obj \<in> set [ConfigMapObject ''settings'', CRDObject ex_widgets].
               goesOn ex_K ex_R ex_preflight obj"
    using g1 g2 by simp
  from upgrade_joins_all_failures[OF m, of ex_K ex_preflight]
  have r: "fst (Preflight_Upgrade ex_K ex_R ex_preflight (Some ex_release)) =
     Returns (errors_Join (concat (map (objectFailures ex_K ex_R ex_preflight)
                                       [ConfigMapObject ''settings'', CRDObject ex_widgets])))"
    using all by blast
  have v: "errors_Join (concat (map (objectFailures ex_K ex_R ex_preflight)
                                       [ConfigMapObject ''settings'', CRDObject ex_widgets])) =
     Some (Joined
       [ValidatingUpgradeFailed ''widgets'' (External ''unsafe change''),
        CrossVersionValidationFailed ''widgets''
          (Joined [FieldChange ''v1'' ''v2'' ''spec.size'' (External ''enum value removed''),
                   FieldChange ''v2'' ''v1'' ''spec.size'' (External ''enum value removed'')])])"
    by (simp add: objectFailures_def ex_checkObject_settings ex_checkObject_widgets
          errors_Join_def)
  have pre: "\<forall>z \<in> set [CRDObject ex_widgets]. goesOn ex_K ex_R ex_preflight z"
    using g2 by simp
  from upgrade_joins_all_failures[OF m2, where K = ex_K and p = ex_preflight
      and pre = "[CRDObject ex_widgets]" and y = "CRDObject ex_gadgets" and post = "[]"
      and uy = "CRDObject ex_gadgets" and cy = ex_gadgets and ?e3.0 = "External ''not found''"]
  have cut: "fst (Preflight_Upgrade ex_K ex_R ex_preflight (Some ex_release2)) =
     Returns (Some (GettingExistingCRD (metadata_Name ex_gadgets) (External ''not found'')))"
    using pre gvk tu fu get by blast
  show ?thesis using m g1 g2 r v m2 gvk tu fu get cut by (simp add: nm)
qed

text \<open>
  C3, as stated, fails.  The release holds the definitions \<^verbatim>\<open>widgets\<close> and \<^verbatim>\<open>gadgets\<close>.
  Both validations of \<^verbatim>\<open>widgets\<close> fail, and the loop holds the two failures when it reads
  the active definition of \<^verbatim>\<open>gadgets\<close>, which the cluster does not have.  \<^verbatim>\<open>Upgrade\<close>
  returns the error of that read alone; the failures of \<^verbatim>\<open>widgets\<close> are not part of what
  it returns.
\<close>

theorem upgrade_drops_collected_failures_counterexample:
  "ManifestObjects ex_R (Manifest ex_release2) (release_Name ex_release2 @ ''-release-manifest'')
     = Inr [CRDObject ex_widgets, CRDObject ex_gadgets] \<and>
   objectFailures ex_K ex_R ex_preflight (CRDObject ex_widgets) =
     [ValidatingUpgradeFailed ''widgets'' (External ''unsafe change''),
      CrossVersionValidationFailed ''widgets''
        (Joined [FieldChange ''v1'' ''v2'' ''spec.size'' (External ''enum value removed''),
                 FieldChange ''v2'' ''v1'' ''spec.size'' (External ''enum value removed'')])] \<and>
   fst (Preflight_Upgrade ex_K ex_R ex_preflight (Some ex_release2)) =
     Returns (Some (GettingExistingCRD ''gadgets'' (External ''not found'')))"
  by (simp add: ex_manifests Preflight_Upgrade_def ex_checkObject_widgets ex_checkObject_gadgets
        objectFailures_def)

text \<open>
  C5.  Let the release manifest decode to objects among which one is a definition that
  converts and whose active definition cannot be read (not found, or any other error of the
  read).  Then \<^verbatim>\<open>Upgrade\<close> does not return nil, and what it returns is not a join of
  validation failures.  When the objects before this one let the loop go on, \<^verbatim>\<open>Upgrade\<close>
  returns at this read with the error "getting existing resource for CRD" that wraps the
  error of the read, whatever validation failures it had collected, and the read is the last
  thing it does.
\<close>

theorem fetch_failure_is_fatal:
  assumes "ManifestObjects R (Manifest rel) (release_Name rel @ ''-release-manifest'')
             = Inr (pre @ obj # post)"
    and "GroupVersionKind R obj = CustomResourceDefinitionGVK"
    and "ToUnstructured R obj = Inr uMap" and "FromUnstructured R uMap = Inr newCrd"
    and "crdClient p (metadata_Name newCrd) = Inl e"
  shows "fst (Preflight_Upgrade K R p (Some rel)) \<noteq> Returns None \<and>
         fst (Preflight_Upgrade K R p (Some rel)) \<noteq> Returns (errors_Join errs) \<and>
         ((\<forall>x \<in> set pre. goesOn K R p x) \<longrightarrow>
            Preflight_Upgrade K R p (Some rel) =
              (Returns (Some (GettingExistingCRD (metadata_Name newCrd) e)),
               concat (map (\<lambda>x. snd (checkObject K R p x)) pre) @ [CRDGet (metadata_Name newCrd)]))"
proof -
  let ?objs = "pre @ obj # post"
  have up: "Preflight_Upgrade K R p (Some rel) = Upgrade_loop K R p ?objs [] []"
    using assms(1) by (simp add: Preflight_Upgrade_def)
  have c: "checkObject K R p obj =
             (Fatal (GettingExistingCRD (metadata_Name newCrd) e), [CRDGet (metadata_Name newCrd)])"
    by (rule checkObject_fetch_fails[OF assms(2-5)])
  then have stop: "\<not> goesOn K R p obj" by (simp add: goesOn_def)
  have mem: "obj \<in> set ?objs" by simp
  from Upgrade_loop_stops[OF mem stop, of "[]" "[]"]
  have cases: "fst (Preflight_Upgrade K R p (Some rel)) = Panics \<or>
               (\<exists>x \<in> set ?objs. \<exists>e'. fst (checkObject K R p x) = Fatal e' \<and>
                  fst (Preflight_Upgrade K R p (Some rel)) = Returns (Some e'))"
    by (simp only: up)
  then have not_nil: "fst (Preflight_Upgrade K R p (Some rel)) \<noteq> Returns None"
    by auto
  have not_join: "fst (Preflight_Upgrade K R p (Some rel)) \<noteq> Returns (errors_Join errs)"
  proof (cases "errs = []")
    case True
    then show ?thesis using not_nil by (simp add: errors_Join_def)
  next
    case False
    from cases show ?thesis
    proof
      assume "fst (Preflight_Upgrade K R p (Some rel)) = Panics"
      then show ?thesis by simp
    next
      assume "\<exists>x \<in> set ?objs. \<exists>e'. fst (checkObject K R p x) = Fatal e' \<and>
                fst (Preflight_Upgrade K R p (Some rel)) = Returns (Some e')"
      then obtain x e' where x: "fst (checkObject K R p x) = Fatal e'"
        and r: "fst (Preflight_Upgrade K R p (Some rel)) = Returns (Some e')"
        by blast
      have "e' \<noteq> Joined errs" by (rule checkObject_Fatal_not_Joined[OF x])
      then show ?thesis using r False by (simp add: errors_Join_def)
    qed
  qed
  have exact: "Preflight_Upgrade K R p (Some rel) =
              (Returns (Some (GettingExistingCRD (metadata_Name newCrd) e)),
               concat (map (\<lambda>x. snd (checkObject K R p x)) pre) @ [CRDGet (metadata_Name newCrd)])"
    if "\<forall>x \<in> set pre. goesOn K R p x"
    using Upgrade_loop_append[OF that, of "obj # post" "[]" "[]"] c by (simp add: up)
  show ?thesis using not_nil not_join exact by blast
qed

theorem fetch_failure_is_fatal_witness:
  "ManifestObjects ex_R (Manifest ex_release2) (release_Name ex_release2 @ ''-release-manifest'')
     = Inr ([CRDObject ex_widgets] @ CRDObject ex_gadgets # []) \<and>
   GroupVersionKind ex_R (CRDObject ex_gadgets) = CustomResourceDefinitionGVK \<and>
   ToUnstructured ex_R (CRDObject ex_gadgets) = Inr (CRDObject ex_gadgets) \<and>
   FromUnstructured ex_R (CRDObject ex_gadgets) = Inr ex_gadgets \<and>
   crdClient ex_preflight (metadata_Name ex_gadgets) = Inl (External ''not found'') \<and>
   goesOn ex_K ex_R ex_preflight (CRDObject ex_widgets) \<and>
   Preflight_Upgrade ex_K ex_R ex_preflight (Some ex_release2) =
     (Returns (Some (GettingExistingCRD ''gadgets'' (External ''not found''))),
      [CRDGet ''widgets'', ValidatorValidate ''widgets'', CrossVersionValidate ''widgets'',
       CRDGet ''gadgets''])"
proof -
  have m: "ManifestObjects ex_R (Manifest ex_release2)
             (release_Name ex_release2 @ ''-release-manifest'')
             = Inr ([CRDObject ex_widgets] @ CRDObject ex_gadgets # [])"
    by (simp add: ex_manifests)
  have gvk: "GroupVersionKind ex_R (CRDObject ex_gadgets) = CustomResourceDefinitionGVK"
    by (simp add: ex_R_def CustomResourceDefinitionGVK_def)
  have tu: "ToUnstructured ex_R (CRDObject ex_gadgets) = Inr (CRDObject ex_gadgets)"
    by (simp add: ex_R_def)
  have fu: "FromUnstructured ex_R (CRDObject ex_gadgets) = Inr ex_gadgets"
    by (simp add: ex_R_def)
  have get: "crdClient ex_preflight (metadata_Name ex_gadgets) = Inl (External ''not found'')"
    by (simp add: ex_preflight_fields ex_crdClient_def ex_gadgets_def)
  have g: "goesOn ex_K ex_R ex_preflight (CRDObject ex_widgets)"
    by (simp add: goesOn_def ex_checkObject_widgets)
  have nm: "metadata_Name ex_gadgets = ''gadgets''" by (simp add: ex_gadgets_def)
  from fetch_failure_is_fatal[OF m gvk tu fu get, of ex_K "[]"]
  have "Preflight_Upgrade ex_K ex_R ex_preflight (Some ex_release2) =
          (Returns (Some (GettingExistingCRD (metadata_Name ex_gadgets) (External ''not found''))),
           concat (map (\<lambda>x. snd (checkObject ex_K ex_R ex_preflight x)) [CRDObject ex_widgets])
             @ [CRDGet (metadata_Name ex_gadgets)])"
    using g by simp
  then show ?thesis using m gvk tu fu get g by (simp add: nm ex_checkObject_widgets)
qed

text \<open>
  C9.  For a nil release \<^verbatim>\<open>Upgrade\<close> returns nil, and it does nothing on the way: no active
  definition is read and no validation is run.
\<close>

theorem upgrade_of_nil_release:
  "Preflight_Upgrade K R p None = (Returns None, [])"
  by (simp add: Preflight_Upgrade_def)

theorem upgrade_of_nil_release_witness:
  "Preflight_Upgrade ex_K ex_R ex_preflight None = (Returns None, [])"
  using upgrade_of_nil_release[of ex_K ex_R ex_preflight] .

section \<open>Properties of the applier\<close>

lemma runPreflights_no_checks:
  "state = stateUnchanged \<or> state = stateError \<Longrightarrow>
   runPreflights ps i ext state desiredRel tr = (Returns None, tr)"
  by (induction ps arbitrary: i) auto

lemma runPreflights_trace:
  "\<exists>new. snd (runPreflights ps i ext state desiredRel tr) = tr @ new \<and>
     (\<forall>ev \<in> set new. \<exists>j<length ps. \<not> skipped ext (ps ! j) \<and>
        (ev = PreflightInstall (i + j) \<and> state = stateNeedsInstall \<or>
         ev = PreflightUpgrade (i + j) \<and> state = stateNeedsUpgrade))"
proof (induction ps arbitrary: i tr)
  case Nil
  then show ?case by simp
next
  case (Cons p ps)
  let ?P = "\<lambda>l new. \<forall>ev \<in> set new. \<exists>j<length l. \<not> skipped ext (l ! j) \<and>
        (ev = PreflightInstall (i + j) \<and> state = stateNeedsInstall \<or>
         ev = PreflightUpgrade (i + j) \<and> state = stateNeedsUpgrade)"
  have lift: "?P (p # ps) new"
    if "\<forall>ev \<in> set new. \<exists>j<length ps. \<not> skipped ext (ps ! j) \<and>
        (ev = PreflightInstall (Suc i + j) \<and> state = stateNeedsInstall \<or>
         ev = PreflightUpgrade (Suc i + j) \<and> state = stateNeedsUpgrade)" for new
  proof
    fix ev assume "ev \<in> set new"
    with that obtain j where j: "j < length ps" "\<not> skipped ext (ps ! j)"
      "ev = PreflightInstall (Suc i + j) \<and> state = stateNeedsInstall \<or>
       ev = PreflightUpgrade (Suc i + j) \<and> state = stateNeedsUpgrade" by blast
    then have "Suc j < length (p # ps) \<and> \<not> skipped ext ((p # ps) ! Suc j) \<and>
        (ev = PreflightInstall (i + Suc j) \<and> state = stateNeedsInstall \<or>
         ev = PreflightUpgrade (i + Suc j) \<and> state = stateNeedsUpgrade)" by simp
    then show "\<exists>j<length (p # ps). \<not> skipped ext ((p # ps) ! j) \<and>
        (ev = PreflightInstall (i + j) \<and> state = stateNeedsInstall \<or>
         ev = PreflightUpgrade (i + j) \<and> state = stateNeedsUpgrade)" by blast
  qed
  show ?case
  proof (cases "skipped ext p")
    case True
    from Cons.IH[of "Suc i" tr] obtain new where
      n: "snd (runPreflights ps (Suc i) ext state desiredRel tr) = tr @ new"
      and a: "\<forall>ev \<in> set new. \<exists>j<length ps. \<not> skipped ext (ps ! j) \<and>
        (ev = PreflightInstall (Suc i + j) \<and> state = stateNeedsInstall \<or>
         ev = PreflightUpgrade (Suc i + j) \<and> state = stateNeedsUpgrade)" by blast
    show ?thesis using True n lift[OF a] by auto
  next
    case False
    show ?thesis
    proof (cases state)
      case stateNeedsInstall
      have here: "?P (p # ps) [PreflightInstall i]"
        using False stateNeedsInstall by auto
      show ?thesis
      proof (cases "Install p desiredRel = Returns None")
        case True
        from Cons.IH[of "Suc i" "tr @ [PreflightInstall i]"] obtain new where
          n: "snd (runPreflights ps (Suc i) ext state desiredRel (tr @ [PreflightInstall i]))
                = (tr @ [PreflightInstall i]) @ new"
          and a: "\<forall>ev \<in> set new. \<exists>j<length ps. \<not> skipped ext (ps ! j) \<and>
            (ev = PreflightInstall (Suc i + j) \<and> state = stateNeedsInstall \<or>
             ev = PreflightUpgrade (Suc i + j) \<and> state = stateNeedsUpgrade)" by blast
        have "?P (p # ps) ([PreflightInstall i] @ new)"
          using here lift[OF a] by (simp only: set_append ball_Un)
        moreover have "snd (runPreflights (p # ps) i ext state desiredRel tr)
                         = tr @ ([PreflightInstall i] @ new)"
          using False stateNeedsInstall True n by simp
        ultimately show ?thesis by blast
      next
        case stop: False
        then have "snd (runPreflights (p # ps) i ext state desiredRel tr)
                     = tr @ [PreflightInstall i]"
          using False stateNeedsInstall
          by (auto split: outcome.splits option.splits)
        then show ?thesis using here by blast
      qed
    next
      case stateNeedsUpgrade
      have here: "?P (p # ps) [PreflightUpgrade i]"
        using False stateNeedsUpgrade by auto
      show ?thesis
      proof (cases "Upgrade p desiredRel = Returns None")
        case True
        from Cons.IH[of "Suc i" "tr @ [PreflightUpgrade i]"] obtain new where
          n: "snd (runPreflights ps (Suc i) ext state desiredRel (tr @ [PreflightUpgrade i]))
                = (tr @ [PreflightUpgrade i]) @ new"
          and a: "\<forall>ev \<in> set new. \<exists>j<length ps. \<not> skipped ext (ps ! j) \<and>
            (ev = PreflightInstall (Suc i + j) \<and> state = stateNeedsInstall \<or>
             ev = PreflightUpgrade (Suc i + j) \<and> state = stateNeedsUpgrade)" by blast
        have "?P (p # ps) ([PreflightUpgrade i] @ new)"
          using here lift[OF a] by (simp only: set_append ball_Un)
        moreover have "snd (runPreflights (p # ps) i ext state desiredRel tr)
                         = tr @ ([PreflightUpgrade i] @ new)"
          using False stateNeedsUpgrade True n by simp
        ultimately show ?thesis by blast
      next
        case stop: False
        then have "snd (runPreflights (p # ps) i ext state desiredRel tr)
                     = tr @ [PreflightUpgrade i]"
          using False stateNeedsUpgrade
          by (auto split: outcome.splits option.splits)
        then show ?thesis using here by blast
      qed
    next
      case stateUnchanged
      then show ?thesis by (simp add: runPreflights_no_checks)
    next
      case stateError
      then show ?thesis by (simp add: runPreflights_no_checks)
    qed
  qed
qed

lemma runPreflights_keeps:
  "set tr \<subseteq> set (snd (runPreflights ps i ext state desiredRel tr))"
  using runPreflights_trace[of ps i ext state desiredRel tr] by auto

lemma runPreflights_Install_runs:
  assumes "state = stateNeedsInstall" and "k < length ps" and "\<not> skipped ext (ps ! k)"
    and "\<forall>j<k. \<not> skipped ext (ps ! j) \<longrightarrow> Install (ps ! j) desiredRel = Returns None"
  shows "PreflightInstall (i + k) \<in> set (snd (runPreflights ps i ext state desiredRel tr))"
  using assms(2-4)
proof (induction ps arbitrary: i k tr)
  case Nil
  then show ?case by simp
next
  case (Cons p ps)
  show ?case
  proof (cases k)
    case 0
    then have ns: "\<not> skipped ext p" using Cons.prems(2) by simp
    have "PreflightInstall i \<in> set (tr @ [PreflightInstall i])" by simp
    then have "PreflightInstall i
                 \<in> set (snd (runPreflights ps (Suc i) ext state desiredRel (tr @ [PreflightInstall i])))"
      using runPreflights_keeps by blast
    then show ?thesis
      using 0 ns assms(1) by (auto split: outcome.splits option.splits)
  next
    case (Suc m)
    have m: "m < length ps" using Cons.prems(1) Suc by simp
    have nm: "\<not> skipped ext (ps ! m)" using Cons.prems(2) Suc by simp
    have before: "\<forall>j<m. \<not> skipped ext (ps ! j) \<longrightarrow> Install (ps ! j) desiredRel = Returns None"
    proof (intro allI impI)
      fix j assume j: "j < m" and s: "\<not> skipped ext (ps ! j)"
      have "Suc j < k" using j Suc by simp
      moreover have "\<not> skipped ext ((p # ps) ! Suc j)" using s by simp
      ultimately have "Install ((p # ps) ! Suc j) desiredRel = Returns None"
        using Cons.prems(3) by blast
      then show "Install (ps ! j) desiredRel = Returns None" by simp
    qed
    have IH: "PreflightInstall (Suc i + m) \<in> set (snd (runPreflights ps (Suc i) ext state desiredRel t))"
      for t by (rule Cons.IH[OF m nm before])
    have head: "\<not> skipped ext p \<longrightarrow> Install p desiredRel = Returns None"
      using Cons.prems(3) Suc by (auto dest: spec[of _ 0])
    show ?thesis
    proof (cases "skipped ext p")
      case True
      then show ?thesis using IH[of tr] Suc by simp
    next
      case False
      then show ?thesis
        using head IH[of "tr @ [PreflightInstall i]"] Suc assms(1) by simp
    qed
  qed
qed

lemma runPreflights_Upgrade_runs:
  assumes "state = stateNeedsUpgrade" and "k < length ps" and "\<not> skipped ext (ps ! k)"
    and "\<forall>j<k. \<not> skipped ext (ps ! j) \<longrightarrow> Upgrade (ps ! j) desiredRel = Returns None"
  shows "PreflightUpgrade (i + k) \<in> set (snd (runPreflights ps i ext state desiredRel tr))"
  using assms(2-4)
proof (induction ps arbitrary: i k tr)
  case Nil
  then show ?case by simp
next
  case (Cons p ps)
  show ?case
  proof (cases k)
    case 0
    then have ns: "\<not> skipped ext p" using Cons.prems(2) by simp
    have "PreflightUpgrade i \<in> set (tr @ [PreflightUpgrade i])" by simp
    then have "PreflightUpgrade i
                 \<in> set (snd (runPreflights ps (Suc i) ext state desiredRel (tr @ [PreflightUpgrade i])))"
      using runPreflights_keeps by blast
    then show ?thesis
      using 0 ns assms(1) by (auto split: outcome.splits option.splits)
  next
    case (Suc m)
    have m: "m < length ps" using Cons.prems(1) Suc by simp
    have nm: "\<not> skipped ext (ps ! m)" using Cons.prems(2) Suc by simp
    have before: "\<forall>j<m. \<not> skipped ext (ps ! j) \<longrightarrow> Upgrade (ps ! j) desiredRel = Returns None"
    proof (intro allI impI)
      fix j assume j: "j < m" and s: "\<not> skipped ext (ps ! j)"
      have "Suc j < k" using j Suc by simp
      moreover have "\<not> skipped ext ((p # ps) ! Suc j)" using s by simp
      ultimately have "Upgrade ((p # ps) ! Suc j) desiredRel = Returns None"
        using Cons.prems(3) by blast
      then show "Upgrade (ps ! j) desiredRel = Returns None" by simp
    qed
    have IH: "PreflightUpgrade (Suc i + m) \<in> set (snd (runPreflights ps (Suc i) ext state desiredRel t))"
      for t by (rule Cons.IH[OF m nm before])
    have head: "\<not> skipped ext p \<longrightarrow> Upgrade p desiredRel = Returns None"
      using Cons.prems(3) Suc by (auto dest: spec[of _ 0])
    show ?thesis
    proof (cases "skipped ext p")
      case True
      then show ?thesis using IH[of tr] Suc by simp
    next
      case False
      then show ?thesis
        using head IH[of "tr @ [PreflightUpgrade i]"] Suc assms(1) by simp
    qed
  qed
qed

lemma managedObjects_trace: "snd (managedObjects cl rel tr) = tr"
  by (simp add: managedObjects_def split: option.splits sum.splits)

text \<open>
  The trace of \<^verbatim>\<open>Apply\<close> is empty when it returns before the loop over the preflights, and
  otherwise the trace of that loop followed by at most one call of the action client.
\<close>

lemma Apply_trace:
  "snd (Apply cl h contentFS ext bundle) = [] \<or>
   (\<exists>chrt rel desiredRel state acts.
      RegistryV1ToHelmChart cl contentFS (spec_InstallNamespace ext) = Inr chrt \<and>
      getReleaseState cl ext chrt = (rel, desiredRel, state, None) \<and>
      snd (Apply cl h contentFS ext bundle) =
        snd (runPreflights (Preflights h) 0 ext state desiredRel []) @ acts \<and>
      set acts \<subseteq> {ActionInstall, ActionUpgrade, ActionReconcile})"
proof (cases "RegistryV1ToHelmChart cl contentFS (spec_InstallNamespace ext)")
  case (Inl e)
  then show ?thesis by (simp add: Apply_def)
next
  case (Inr chrt)
  obtain rel desiredRel state eo where g: "getReleaseState cl ext chrt = (rel, desiredRel, state, eo)"
    by (cases "getReleaseState cl ext chrt") auto
  obtain r tr where rp: "runPreflights (Preflights h) 0 ext state desiredRel [] = (r, tr)"
    by (cases "runPreflights (Preflights h) 0 ext state desiredRel []")
  show ?thesis
  proof (cases "ActionClientGetter h ext = None \<and> (\<exists>v. bundle_Version cl bundle = Inr v) \<and> eo = None")
    case False
    then have "snd (Apply cl h contentFS ext bundle) = []"
      using Inr g by (auto simp: Apply_def split: option.splits sum.splits)
    then show ?thesis by simp
  next
    case True
    then obtain v where v: "bundle_Version cl bundle = Inr v" by blast
    have "\<exists>acts. snd (Apply cl h contentFS ext bundle) = tr @ acts \<and>
            set acts \<subseteq> {ActionInstall, ActionUpgrade, ActionReconcile}"
      using Inr g True v rp
      by (cases state)
         (auto simp: Apply_def managedObjects_trace split: outcome.splits option.splits sum.splits)
    then show ?thesis using Inr g True rp by auto
  qed
qed

lemma Apply_reaches_loop:
  assumes "RegistryV1ToHelmChart cl contentFS (spec_InstallNamespace ext) = Inr chrt"
    and "ActionClientGetter h ext = None" and "bundle_Version cl bundle = Inr v"
    and "getReleaseState cl ext chrt = (rel, desiredRel, state, None)"
  shows "set (snd (runPreflights (Preflights h) 0 ext state desiredRel []))
           \<subseteq> set (snd (Apply cl h contentFS ext bundle))"
proof -
  obtain r tr where rp: "runPreflights (Preflights h) 0 ext state desiredRel [] = (r, tr)"
    by (cases "runPreflights (Preflights h) 0 ext state desiredRel []")
  have "\<exists>acts. snd (Apply cl h contentFS ext bundle) = tr @ acts"
    using assms rp
    by (cases state)
       (auto simp: Apply_def managedObjects_trace split: outcome.splits option.splits sum.splits)
  then show ?thesis using rp by auto
qed

lemma Apply_preflight_event:
  assumes "ev \<in> set (snd (Apply cl h contentFS ext bundle))"
    and "ev = PreflightInstall k \<or> ev = PreflightUpgrade k"
  shows "\<exists>chrt rel desiredRel state.
           RegistryV1ToHelmChart cl contentFS (spec_InstallNamespace ext) = Inr chrt \<and>
           getReleaseState cl ext chrt = (rel, desiredRel, state, None) \<and>
           k < length (Preflights h) \<and> \<not> skipped ext (Preflights h ! k) \<and>
           (ev = PreflightInstall k \<and> state = stateNeedsInstall \<or>
            ev = PreflightUpgrade k \<and> state = stateNeedsUpgrade)"
proof -
  from Apply_trace[of cl h contentFS ext "bundle"] assms(1)
  obtain chrt rel desiredRel state acts where
    c: "RegistryV1ToHelmChart cl contentFS (spec_InstallNamespace ext) = Inr chrt"
    and g: "getReleaseState cl ext chrt = (rel, desiredRel, state, None)"
    and t: "snd (Apply cl h contentFS ext bundle) =
              snd (runPreflights (Preflights h) 0 ext state desiredRel []) @ acts"
    and a: "set acts \<subseteq> {ActionInstall, ActionUpgrade, ActionReconcile}"
    by auto
  have "ev \<notin> set acts" using a assms(2) by auto
  then have ev: "ev \<in> set (snd (runPreflights (Preflights h) 0 ext state desiredRel []))"
    using assms(1) t by simp
  from runPreflights_trace[of "Preflights h" 0 ext state desiredRel "[]"] ev
  obtain j where "j < length (Preflights h)" "\<not> skipped ext (Preflights h ! j)"
    "ev = PreflightInstall j \<and> state = stateNeedsInstall \<or>
     ev = PreflightUpgrade j \<and> state = stateNeedsUpgrade"
    by auto
  then show ?thesis using c g assms(2) by auto
qed

lemma runPreflights_result:
  "fst (runPreflights ps i ext state desiredRel tr) = fst (runPreflights ps i' ext state desiredRel tr')"
  by (induction ps arbitrary: i i' tr tr')
     (auto split: releaseState.splits outcome.splits option.splits)

lemma runPreflights_without_skipped:
  "fst (runPreflights ps i ext state desiredRel tr) =
   fst (runPreflights (filter (\<lambda>p. \<not> skipped ext p) ps) i ext state desiredRel tr)"
proof (induction ps arbitrary: i tr)
  case Nil
  then show ?case by simp
next
  case (Cons p ps)
  show ?case
  proof (cases "skipped ext p")
    case True
    then show ?thesis
      using Cons.IH[of "Suc i" tr] runPreflights_result[of _ "Suc i" ext state desiredRel tr i tr]
      by simp
  next
    case False
    then show ?thesis
      using Cons.IH
      by (auto split: releaseState.splits outcome.splits option.splits)
  qed
qed

text \<open>
  What \<^verbatim>\<open>Apply\<close> returns depends on the preflights only through what the loop over them
  returns.
\<close>

lemma Apply_result_cong:
  assumes "ActionClientGetter h' = ActionClientGetter h"
    and "\<And>state desiredRel. fst (runPreflights (Preflights h') 0 ext state desiredRel [])
            = fst (runPreflights (Preflights h) 0 ext state desiredRel [])"
  shows "fst (Apply cl h' contentFS ext bndl) = fst (Apply cl h contentFS ext bndl)"
proof -
  have m: "fst (managedObjects cl rel tr) = fst (managedObjects cl rel [])" for rel tr
    by (simp add: managedObjects_def split: option.splits sum.splits)
  have "fst (Apply cl g contentFS ext bndl) =
     (case RegistryV1ToHelmChart cl contentFS (spec_InstallNamespace ext) of
        Inl e \<Rightarrow> Returns (Inl e)
      | Inr chrt \<Rightarrow>
     (case ActionClientGetter g ext of
        Some e \<Rightarrow> Returns (Inl e)
      | None \<Rightarrow>
     (case bundle_Version cl bndl of
        Inl e \<Rightarrow> Returns (Inl e)
      | Inr bundleVersion \<Rightarrow>
     (case getReleaseState cl ext chrt of
        (rel, desiredRel, state, Some e) \<Rightarrow> Returns (Inl e)
      | (rel, desiredRel, state, None) \<Rightarrow>
     (case fst (runPreflights (Preflights g) 0 ext state desiredRel []) of
        Panics \<Rightarrow> Panics
      | Returns (Some e) \<Rightarrow> Returns (Inl e)
      | Returns None \<Rightarrow>
         (case state of
            stateNeedsInstall \<Rightarrow>
              (case ac_Install cl (ext_Name ext) (spec_InstallNamespace ext) chrt of
                 Inl e \<Rightarrow> Returns (Inl e)
               | Inr r \<Rightarrow> fst (managedObjects cl (Some r) []))
          | stateNeedsUpgrade \<Rightarrow>
              (case ac_Upgrade cl (ext_Name ext) (spec_InstallNamespace ext) chrt of
                 Inl e \<Rightarrow> Returns (Inl e)
               | Inr r \<Rightarrow> fst (managedObjects cl (Some r) []))
          | stateUnchanged \<Rightarrow>
              (case ac_Reconcile cl rel of
                 Some e \<Rightarrow> Returns (Inl e)
               | None \<Rightarrow> fst (managedObjects cl rel []))
          | stateError \<Rightarrow>
              Returns (Inl (UnexpectedReleaseState (releaseState_string state)))))))))"
    for g
    unfolding Apply_def
    by (auto split: sum.splits option.splits prod.splits outcome.splits releaseState.splits
             simp: m[of _ "_ @ _"] )
  note unfold = this
  show ?thesis
    unfolding unfold[of h'] unfold[of h] assms(1)
    by (simp add: assms(2) split: sum.splits option.splits prod.splits)
qed

lemma skipped_when_disabled:
  "spec_Preflight ext = Some pc \<Longrightarrow> CRDUpgradeSafety pc = Some c \<Longrightarrow> Disabled c \<Longrightarrow>
   skipped ext preflight = isCRDUpgradeSafetyPreflight preflight"
  by (simp add: skipped_def)

text \<open>
  C6.  Let the extension's \<^verbatim>\<open>Spec.Preflight.CRDUpgradeSafety.Disabled\<close> be set.  Then
  \<^verbatim>\<open>Apply\<close> calls neither \<^verbatim>\<open>Install\<close> nor \<^verbatim>\<open>Upgrade\<close> of a preflight of type
  \<^verbatim>\<open>*crdupgradesafety.Preflight\<close>: every preflight call in its trace is for a position of
  \<^verbatim>\<open>h.Preflights\<close> that holds a preflight of another type.  The other preflights still run:
  when \<^verbatim>\<open>Apply\<close> gets as far as the loop with the state NeedsInstall (NeedsUpgrade), the
  \<^verbatim>\<open>Install\<close> (\<^verbatim>\<open>Upgrade\<close>) of a preflight of another type is called, provided the
  preflights of another type before it returned nil, since the first error ends \<^verbatim>\<open>Apply\<close>.
  And \<^verbatim>\<open>Apply\<close> returns what it would return if the preflights of type
  \<^verbatim>\<open>*crdupgradesafety.Preflight\<close> were taken out of \<^verbatim>\<open>h.Preflights\<close>.
\<close>

theorem disabled_crd_preflight_is_never_invoked:
  assumes "spec_Preflight ext = Some pc" and "CRDUpgradeSafety pc = Some c" and "Disabled c"
  shows "(PreflightInstall i \<in> set (snd (Apply cl h contentFS ext bndl)) \<or>
          PreflightUpgrade i \<in> set (snd (Apply cl h contentFS ext bndl)) \<longrightarrow>
            i < length (Preflights h) \<and> \<not> isCRDUpgradeSafetyPreflight (Preflights h ! i)) \<and>
         (RegistryV1ToHelmChart cl contentFS (spec_InstallNamespace ext) = Inr chrt \<and>
          ActionClientGetter h ext = None \<and> bundle_Version cl bndl = Inr v \<and>
          getReleaseState cl ext chrt = (rel, desiredRel, state, None) \<and>
          k < length (Preflights h) \<and> \<not> isCRDUpgradeSafetyPreflight (Preflights h ! k) \<longrightarrow>
            (state = stateNeedsInstall \<and>
             (\<forall>j<k. \<not> isCRDUpgradeSafetyPreflight (Preflights h ! j) \<longrightarrow>
                     Install (Preflights h ! j) desiredRel = Returns None) \<longrightarrow>
               PreflightInstall k \<in> set (snd (Apply cl h contentFS ext bndl))) \<and>
            (state = stateNeedsUpgrade \<and>
             (\<forall>j<k. \<not> isCRDUpgradeSafetyPreflight (Preflights h ! j) \<longrightarrow>
                     Upgrade (Preflights h ! j) desiredRel = Returns None) \<longrightarrow>
               PreflightUpgrade k \<in> set (snd (Apply cl h contentFS ext bndl)))) \<and>
         fst (Apply cl h contentFS ext bndl) =
           fst (Apply cl
                  (h\<lparr>Preflights :=
                       filter (\<lambda>p. \<not> isCRDUpgradeSafetyPreflight p) (Preflights h)\<rparr>)
                  contentFS ext bndl)"
proof -
  have sk: "skipped ext preflight = isCRDUpgradeSafetyPreflight preflight" for preflight
    by (rule skipped_when_disabled[OF assms])
  have never: "i < length (Preflights h) \<and> \<not> isCRDUpgradeSafetyPreflight (Preflights h ! i)"
    if "PreflightInstall i \<in> set (snd (Apply cl h contentFS ext bndl)) \<or>
        PreflightUpgrade i \<in> set (snd (Apply cl h contentFS ext bndl))"
    using that
  proof
    assume "PreflightInstall i \<in> set (snd (Apply cl h contentFS ext bndl))"
    from Apply_preflight_event[OF this, of i] show ?thesis by (auto simp: sk)
  next
    assume "PreflightUpgrade i \<in> set (snd (Apply cl h contentFS ext bndl))"
    from Apply_preflight_event[OF this, of i] show ?thesis by (auto simp: sk)
  qed
  have others:
    "(state = stateNeedsInstall \<and>
       (\<forall>j<k. \<not> isCRDUpgradeSafetyPreflight (Preflights h ! j) \<longrightarrow>
               Install (Preflights h ! j) desiredRel = Returns None) \<longrightarrow>
         PreflightInstall k \<in> set (snd (Apply cl h contentFS ext bndl))) \<and>
     (state = stateNeedsUpgrade \<and>
       (\<forall>j<k. \<not> isCRDUpgradeSafetyPreflight (Preflights h ! j) \<longrightarrow>
               Upgrade (Preflights h ! j) desiredRel = Returns None) \<longrightarrow>
         PreflightUpgrade k \<in> set (snd (Apply cl h contentFS ext bndl)))"
    if r: "RegistryV1ToHelmChart cl contentFS (spec_InstallNamespace ext) = Inr chrt"
      "ActionClientGetter h ext = None" "bundle_Version cl bndl = Inr v"
      "getReleaseState cl ext chrt = (rel, desiredRel, state, None)"
      and k: "k < length (Preflights h)"
      and nk: "\<not> isCRDUpgradeSafetyPreflight (Preflights h ! k)"
  proof -
    note sub = Apply_reaches_loop[OF r]
    have nsk: "\<not> skipped ext (Preflights h ! k)" using nk by (simp add: sk)
    have inst: "PreflightInstall k \<in> set (snd (Apply cl h contentFS ext bndl))"
      if s: "state = stateNeedsInstall"
        and b: "\<forall>j<k. \<not> isCRDUpgradeSafetyPreflight (Preflights h ! j) \<longrightarrow>
                      Install (Preflights h ! j) desiredRel = Returns None"
    proof -
      have b': "\<forall>j<k. \<not> skipped ext (Preflights h ! j) \<longrightarrow>
                      Install (Preflights h ! j) desiredRel = Returns None"
        using b by (simp add: sk)
      from runPreflights_Install_runs[OF s k nsk b', of 0 "[]"] sub show ?thesis by auto
    qed
    have upg: "PreflightUpgrade k \<in> set (snd (Apply cl h contentFS ext bndl))"
      if s: "state = stateNeedsUpgrade"
        and b: "\<forall>j<k. \<not> isCRDUpgradeSafetyPreflight (Preflights h ! j) \<longrightarrow>
                      Upgrade (Preflights h ! j) desiredRel = Returns None"
    proof -
      have b': "\<forall>j<k. \<not> skipped ext (Preflights h ! j) \<longrightarrow>
                      Upgrade (Preflights h ! j) desiredRel = Returns None"
        using b by (simp add: sk)
      from runPreflights_Upgrade_runs[OF s k nsk b', of 0 "[]"] sub show ?thesis by auto
    qed
    show ?thesis using inst upg by blast
  qed
  have same: "fst (Apply cl
                  (h\<lparr>Preflights :=
                       filter (\<lambda>p. \<not> isCRDUpgradeSafetyPreflight p) (Preflights h)\<rparr>)
                  contentFS ext bndl) = fst (Apply cl h contentFS ext bndl)"
  proof (rule Apply_result_cong)
    show "ActionClientGetter
            (h\<lparr>Preflights :=
                 filter (\<lambda>p. \<not> isCRDUpgradeSafetyPreflight p) (Preflights h)\<rparr>)
          = ActionClientGetter h" by simp
  next
    fix state desiredRel
    have "filter (\<lambda>p. \<not> skipped ext p) (Preflights h)
            = filter (\<lambda>p. \<not> isCRDUpgradeSafetyPreflight p) (Preflights h)"
      by (simp add: sk)
    then show "fst (runPreflights
                 (Preflights
                    (h\<lparr>Preflights :=
                         filter (\<lambda>p. \<not> isCRDUpgradeSafetyPreflight p) (Preflights h)\<rparr>))
                 0 ext state desiredRel [])
          = fst (runPreflights (Preflights h) 0 ext state desiredRel [])"
      using runPreflights_without_skipped[of "Preflights h" 0 ext state desiredRel "[]"]
      by simp
  qed
  show ?thesis using never others same by presburger
qed

lemma ex_getReleaseState:
  "getReleaseState ex_cl (ex_ext ''changed'') 0
     = (Some ex_release, Some ex_release2, stateNeedsUpgrade, None)"
  "getReleaseState ex_cl (ex_ext ''steady'') 0
     = (Some ex_release, Some ex_release, stateUnchanged, None)"
  by (simp_all add: getReleaseState_def ex_cl_def ex_ext_def ex_Get_def ex_DryRun_def
        ex_release_def ex_release2_def)

lemma ex_reaches_loop:
  "RegistryV1ToHelmChart ex_cl () (spec_InstallNamespace (ex_ext n)) = Inr 0"
  "ActionClientGetter ex_h (ex_ext n) = None"
  "bundle_Version ex_cl () = Inr ''1.0.0''"
  by (simp_all add: ex_cl_def ex_h_def ex_convert_def ex_getter_def ex_version_def)

lemma ex_h_Preflights:
  "length (Preflights ex_h) = 2"
  "isCRDUpgradeSafetyPreflight (Preflights ex_h ! 0)"
  "\<not> isCRDUpgradeSafetyPreflight (Preflights ex_h ! 1)"
  by (simp_all add: ex_h_def crdupgradesafety_Preflight_def ex_other_def)

theorem disabled_crd_preflight_is_never_invoked_witness:
  "spec_Preflight (ex_ext ''changed'') = Some \<lparr> CRDUpgradeSafety = Some \<lparr> Disabled = True \<rparr> \<rparr> \<and>
   CRDUpgradeSafety \<lparr> CRDUpgradeSafety = Some \<lparr> Disabled = True \<rparr> \<rparr> = Some \<lparr> Disabled = True \<rparr> \<and>
   Disabled \<lparr> Disabled = True \<rparr> \<and>
   isCRDUpgradeSafetyPreflight (Preflights ex_h ! 0) \<and>
   PreflightUpgrade 0 \<notin> set (snd (Apply ex_cl ex_h () (ex_ext ''changed'') ())) \<and>
   PreflightInstall 0 \<notin> set (snd (Apply ex_cl ex_h () (ex_ext ''changed'') ())) \<and>
   PreflightUpgrade 1 \<in> set (snd (Apply ex_cl ex_h () (ex_ext ''changed'') ()))"
proof -
  have h1: "spec_Preflight (ex_ext ''changed'')
              = Some \<lparr> CRDUpgradeSafety = Some \<lparr> Disabled = True \<rparr> \<rparr>"
    by (simp add: ex_ext_def)
  have h2: "CRDUpgradeSafety \<lparr> CRDUpgradeSafety = Some \<lparr> Disabled = True \<rparr> \<rparr>
              = Some \<lparr> Disabled = True \<rparr>" by simp
  have h3: "Disabled \<lparr> Disabled = True \<rparr>" by simp
  note t = disabled_crd_preflight_is_never_invoked[OF h1 h2 h3,
      where cl = ex_cl and h = ex_h and contentFS = "()" and bndl = "()" and chrt = 0
        and v = "''1.0.0''" and rel = "Some ex_release" and desiredRel = "Some ex_release2"
        and state = stateNeedsUpgrade and k = 1 and i = 0]
  have before: "\<forall>j<1. \<not> isCRDUpgradeSafetyPreflight (Preflights ex_h ! j) \<longrightarrow>
                  Upgrade (Preflights ex_h ! j) (Some ex_release2) = Returns None"
    using ex_h_Preflights(2) by simp
  have runs: "PreflightUpgrade 1 \<in> set (snd (Apply ex_cl ex_h () (ex_ext ''changed'') ()))"
    using t ex_reaches_loop(1,2)[of "''changed''"] ex_reaches_loop(3) ex_getReleaseState(1) ex_h_Preflights before
    by simp
  have never: "PreflightUpgrade 0 \<notin> set (snd (Apply ex_cl ex_h () (ex_ext ''changed'') ())) \<and>
               PreflightInstall 0 \<notin> set (snd (Apply ex_cl ex_h () (ex_ext ''changed'') ()))"
    using t ex_h_Preflights(2) by blast
  show ?thesis using h1 h2 h3 ex_h_Preflights(2) runs never by blast
qed

text \<open>
  C10.  A call of a preflight's \<^verbatim>\<open>Install\<close> in the trace of \<^verbatim>\<open>Apply\<close> means that
  \<^verbatim>\<open>getReleaseState\<close> gave NeedsInstall, and a call of a preflight's \<^verbatim>\<open>Upgrade\<close> that it
  gave NeedsUpgrade.  When it gives Unchanged, \<^verbatim>\<open>Apply\<close> calls no preflight at all: the
  only thing it does is \<^verbatim>\<open>Reconcile\<close> on the current release, and it returns the error of
  that call or the objects of the release's manifest.
\<close>

theorem preflights_follow_release_state:
  "(PreflightInstall k \<in> set (snd (Apply cl h contentFS ext bndl)) \<longrightarrow>
      (\<exists>chrt rel desiredRel.
          RegistryV1ToHelmChart cl contentFS (spec_InstallNamespace ext) = Inr chrt \<and>
          getReleaseState cl ext chrt = (rel, desiredRel, stateNeedsInstall, None))) \<and>
   (PreflightUpgrade k \<in> set (snd (Apply cl h contentFS ext bndl)) \<longrightarrow>
      (\<exists>chrt rel desiredRel.
          RegistryV1ToHelmChart cl contentFS (spec_InstallNamespace ext) = Inr chrt \<and>
          getReleaseState cl ext chrt = (rel, desiredRel, stateNeedsUpgrade, None))) \<and>
   (RegistryV1ToHelmChart cl contentFS (spec_InstallNamespace ext) = Inr chrt \<and>
    ActionClientGetter h ext = None \<and> bundle_Version cl bndl = Inr v \<and>
    getReleaseState cl ext chrt = (rel, desiredRel, stateUnchanged, None) \<longrightarrow>
      Apply cl h contentFS ext bndl =
        (case ac_Reconcile cl rel of
           Some e \<Rightarrow> (Returns (Inl e), [ActionReconcile])
         | None \<Rightarrow> managedObjects cl rel [ActionReconcile]) \<and>
      snd (Apply cl h contentFS ext bndl) = [ActionReconcile])"
proof -
  have inst: "\<exists>chrt rel desiredRel.
          RegistryV1ToHelmChart cl contentFS (spec_InstallNamespace ext) = Inr chrt \<and>
          getReleaseState cl ext chrt = (rel, desiredRel, stateNeedsInstall, None)"
    if "PreflightInstall k \<in> set (snd (Apply cl h contentFS ext bndl))"
    using Apply_preflight_event[OF that, of k] by auto
  have upg: "\<exists>chrt rel desiredRel.
          RegistryV1ToHelmChart cl contentFS (spec_InstallNamespace ext) = Inr chrt \<and>
          getReleaseState cl ext chrt = (rel, desiredRel, stateNeedsUpgrade, None)"
    if "PreflightUpgrade k \<in> set (snd (Apply cl h contentFS ext bndl))"
    using Apply_preflight_event[OF that, of k] by auto
  have unchanged:
    "Apply cl h contentFS ext bndl =
        (case ac_Reconcile cl rel of
           Some e \<Rightarrow> (Returns (Inl e), [ActionReconcile])
         | None \<Rightarrow> managedObjects cl rel [ActionReconcile]) \<and>
     snd (Apply cl h contentFS ext bndl) = [ActionReconcile]"
    if "RegistryV1ToHelmChart cl contentFS (spec_InstallNamespace ext) = Inr chrt"
      "ActionClientGetter h ext = None" "bundle_Version cl bndl = Inr v"
      "getReleaseState cl ext chrt = (rel, desiredRel, stateUnchanged, None)"
    using that
    by (simp add: Apply_def runPreflights_no_checks managedObjects_trace split: option.splits)
  show ?thesis using inst upg unchanged by blast
qed

theorem preflights_follow_release_state_witness:
  "RegistryV1ToHelmChart ex_cl () (spec_InstallNamespace (ex_ext ''steady'')) = Inr 0 \<and>
   ActionClientGetter ex_h (ex_ext ''steady'') = None \<and>
   bundle_Version ex_cl () = Inr ''1.0.0'' \<and>
   getReleaseState ex_cl (ex_ext ''steady'') 0
     = (Some ex_release, Some ex_release, stateUnchanged, None) \<and>
   snd (Apply ex_cl ex_h () (ex_ext ''steady'') ()) = [ActionReconcile]"
  using preflights_follow_release_state[where cl = ex_cl and h = ex_h and contentFS = "()"
      and ext = "ex_ext ''steady''" and bndl = "()" and chrt = 0 and v = "''1.0.0''"
      and rel = "Some ex_release" and desiredRel = "Some ex_release" and k = 0]
    ex_reaches_loop(1,2)[of "''steady''"] ex_reaches_loop(3) ex_getReleaseState(2)
  by blast

section \<open>Properties of bundle resolution\<close>

lemma set_insertStable: "set (insertStable lt x ys) = insert x (set ys)"
  by (induction ys) auto

lemma set_sort_SliceStable: "set (sort_SliceStable lt xs) = set xs"
  unfolding sort_SliceStable_def by (induction xs) (simp_all add: set_insertStable)

lemma insertStable_deprecated:
  assumes "IsDeprecated C x" and "\<forall>y \<in> set nd. \<not> IsDeprecated C y"
    and "\<forall>y \<in> set dep. IsDeprecated C y"
  shows "insertStable (catalogsort_ByDeprecated C) x (nd @ dep) = nd @ x # dep"
  using assms(2)
proof (induction nd)
  case Nil
  show ?case using assms(3) by (cases dep) (simp_all add: catalogsort_ByDeprecated_def)
next
  case (Cons y nd)
  then show ?case using assms(1) by (simp add: catalogsort_ByDeprecated_def)
qed

lemma insertStable_not_deprecated:
  "\<not> IsDeprecated C x \<Longrightarrow> insertStable (catalogsort_ByDeprecated C) x ys = x # ys"
  by (cases ys) (simp_all add: catalogsort_ByDeprecated_def)

text \<open>
  Sorting stably by deprecation puts the bundles that are not deprecated first and keeps
  the order inside both groups.
\<close>

lemma sort_ByDeprecated:
  "sort_SliceStable (catalogsort_ByDeprecated C) xs =
     filter (\<lambda>b. \<not> IsDeprecated C b) xs @ filter (IsDeprecated C) xs"
proof (induction xs)
  case Nil
  then show ?case by (simp add: sort_SliceStable_def)
next
  case (Cons x xs)
  have step: "sort_SliceStable (catalogsort_ByDeprecated C) (x # xs) =
          insertStable (catalogsort_ByDeprecated C) x
            (filter (\<lambda>b. \<not> IsDeprecated C b) xs @ filter (IsDeprecated C) xs)"
    using Cons.IH by (simp add: sort_SliceStable_def)
  show ?case
  proof (cases "IsDeprecated C x")
    case True
    then show ?thesis
      unfolding step by (subst insertStable_deprecated) simp_all
  next
    case False
    then show ?thesis
      unfolding step by (simp add: insertStable_not_deprecated)
  qed
qed

lemma validateResolved_Inr: "validateResolved vs x = Inr y \<Longrightarrow> y = x"
  by (induction vs) (auto split: option.splits)

lemma resolvePredicates_candidate:
  "resolvePredicates C ext installedBundle = Inr predicates \<Longrightarrow>
   catalogfilter_And predicates b = candidate C ext installedBundle b"
  by (auto simp: resolvePredicates_def candidate_def catalogfilter_And_def Let_def
           split: if_splits sum.splits option.splits)

lemma Resolve_Inr:
  assumes "BundleProvider r (spec_PackageName ext) = Inr allBundles"
    and "InstalledBundleGetter r ext = Inr installedBundle"
    and "Resolve C r (Some ext) = Returns (Inr b)"
  shows "\<exists>others. sort_SliceStable (catalogsort_ByDeprecated C)
            (sort_SliceStable (ByVersion C) (filter (candidate C ext installedBundle) allBundles))
          = b # others"
proof -
  from assms obtain predicates where p: "resolvePredicates C ext installedBundle = Inr predicates"
    by (cases "resolvePredicates C ext installedBundle") (simp_all add: Resolve_def)
  have f: "catalogfilter_Filter allBundles (catalogfilter_And predicates)
             = filter (candidate C ext installedBundle) allBundles"
    unfolding catalogfilter_Filter_def
    by (rule filter_cong) (simp_all add: resolvePredicates_candidate[OF p])
  let ?sorted = "sort_SliceStable (catalogsort_ByDeprecated C)
            (sort_SliceStable (ByVersion C) (filter (candidate C ext installedBundle) allBundles))"
  from assms(3) obtain x others where s: "?sorted = x # others"
    and v: "validateResolved (Validations r) x = Inr b"
    using assms(1,2) p
    by (cases ?sorted)
       (auto simp: Resolve_def f Let_def split: option.splits sum.splits if_splits)
  from validateResolved_Inr[OF v] s show ?thesis by simp
qed

lemma Resolve_never_panics: "Resolve C r extp \<noteq> Panics"
proof -
  have nonempty: "sort_SliceStable lt1 (sort_SliceStable lt2 xs) \<noteq> []" if "xs \<noteq> []"
    for lt1 lt2 :: "'a \<Rightarrow> 'a \<Rightarrow> bool" and xs
  proof
    assume "sort_SliceStable lt1 (sort_SliceStable lt2 xs) = []"
    then have "set (sort_SliceStable lt1 (sort_SliceStable lt2 xs)) = {}" by simp
    then show False using that by (simp add: set_sort_SliceStable)
  qed
  show ?thesis
    by (auto simp: Resolve_def Let_def dest: nonempty[rotated 1]
             split: option.splits sum.splits list.splits if_splits)
qed

text \<open>
  C8, as the code has it.  \<^verbatim>\<open>Resolve\<close> never panics.  Let the bundles of the package
  and the installed bundle be fetched, and let \<^verbatim>\<open>Resolve\<close> return the bundle \<open>b\<close>.
  Then \<open>b\<close> is one of the fetched bundles and a candidate: it has the package name, it is
  in the channel if a channel is given, it is in the semver range if a version range is
  given, and, if a bundle is installed and the upgrade constraint policy is not Ignore, it
  is a successor of the installed bundle.  It is the first of the candidates after they are
  sorted by version and then stably by deprecation, which is the first non-deprecated
  candidate in version order if there is one.  So if \<open>b\<close> is deprecated, every candidate
  is.
\<close>

theorem resolve_prefers_non_deprecated:
  assumes "BundleProvider r (spec_PackageName ext) = Inr allBundles"
    and "InstalledBundleGetter r ext = Inr installedBundle"
    and "Resolve C r (Some ext) = Returns (Inr b)"
  shows "Resolve C r extp \<noteq> Panics \<and>
         b \<in> set allBundles \<and> candidate C ext installedBundle b \<and>
         WithPackageName C (spec_PackageName ext) b \<and>
         (spec_Channel ext \<noteq> [] \<longrightarrow> InChannel C (spec_Channel ext) b) \<and>
         (spec_Version ext \<noteq> [] \<longrightarrow>
            (\<exists>vr. NewConstraint C (spec_Version ext) = Inr vr \<and> InMastermindsSemverRange C vr b)) \<and>
         (installedBundle = Some ib \<and>
          spec_UpgradeConstraintPolicy ext \<noteq> UpgradeConstraintPolicyIgnore C \<longrightarrow>
            (\<exists>upgradePredicate.
                SuccessorsPredicate C (spec_PackageName ext) ib = Inr upgradePredicate \<and>
                upgradePredicate b)) \<and>
         b = hd (sort_SliceStable (catalogsort_ByDeprecated C)
                   (sort_SliceStable (ByVersion C)
                      (filter (candidate C ext installedBundle) allBundles))) \<and>
         (\<not> IsDeprecated C b \<longrightarrow>
            b = hd (filter (\<lambda>c. \<not> IsDeprecated C c)
                      (sort_SliceStable (ByVersion C)
                         (filter (candidate C ext installedBundle) allBundles)))) \<and>
         (IsDeprecated C b \<longrightarrow>
            (\<forall>c \<in> set allBundles. candidate C ext installedBundle c \<longrightarrow> IsDeprecated C c)) \<and>
         (candidate C ext installedBundle c \<longleftrightarrow>
            WithPackageName C (spec_PackageName ext) c \<and>
            (spec_Channel ext \<noteq> [] \<longrightarrow> InChannel C (spec_Channel ext) c) \<and>
            (spec_Version ext \<noteq> [] \<longrightarrow>
               (\<exists>vr. NewConstraint C (spec_Version ext) = Inr vr \<and>
                     InMastermindsSemverRange C vr c)) \<and>
            (\<forall>i. installedBundle = Some i \<and>
                 spec_UpgradeConstraintPolicy ext \<noteq> UpgradeConstraintPolicyIgnore C \<longrightarrow>
                   (\<exists>upgradePredicate.
                       SuccessorsPredicate C (spec_PackageName ext) i = Inr upgradePredicate \<and>
                       upgradePredicate c)))"
proof -
  let ?cands = "filter (candidate C ext installedBundle) allBundles"
  let ?byVersion = "sort_SliceStable (ByVersion C) ?cands"
  let ?nd = "filter (\<lambda>c. \<not> IsDeprecated C c) ?byVersion"
  let ?dep = "filter (IsDeprecated C) ?byVersion"
  from Resolve_Inr[OF assms] obtain others where
    s: "sort_SliceStable (catalogsort_ByDeprecated C) ?byVersion = b # others" by blast
  then have split: "?nd @ ?dep = b # others" by (simp add: sort_ByDeprecated)
  have "b \<in> set (sort_SliceStable (catalogsort_ByDeprecated C) ?byVersion)" using s by simp
  then have mem: "b \<in> set ?cands" by (simp only: set_sort_SliceStable)
  then have cand: "candidate C ext installedBundle b" and all: "b \<in> set allBundles" by simp_all
  have unfold: "candidate C ext installedBundle x \<longleftrightarrow>
            WithPackageName C (spec_PackageName ext) x \<and>
            (spec_Channel ext \<noteq> [] \<longrightarrow> InChannel C (spec_Channel ext) x) \<and>
            (spec_Version ext \<noteq> [] \<longrightarrow>
               (\<exists>vr. NewConstraint C (spec_Version ext) = Inr vr \<and>
                     InMastermindsSemverRange C vr x)) \<and>
            (\<forall>i. installedBundle = Some i \<and>
                 spec_UpgradeConstraintPolicy ext \<noteq> UpgradeConstraintPolicyIgnore C \<longrightarrow>
                   (\<exists>upgradePredicate.
                       SuccessorsPredicate C (spec_PackageName ext) i = Inr upgradePredicate \<and>
                       upgradePredicate x))" for x
  proof -
    have sumcase: "(case q of Inl e \<Rightarrow> False | Inr v \<Rightarrow> P v) \<longleftrightarrow> (\<exists>v. q = Inr v \<and> P v)"
      for q :: "err + 'q" and P
      by (cases q) simp_all
    show ?thesis
      unfolding candidate_def sumcase
      by (cases installedBundle) simp_all
  qed
  have pkg: "WithPackageName C (spec_PackageName ext) b"
    and chan: "spec_Channel ext \<noteq> [] \<longrightarrow> InChannel C (spec_Channel ext) b"
    and range: "spec_Version ext \<noteq> [] \<longrightarrow>
            (\<exists>vr. NewConstraint C (spec_Version ext) = Inr vr \<and> InMastermindsSemverRange C vr b)"
    and succ: "installedBundle = Some ib \<and>
          spec_UpgradeConstraintPolicy ext \<noteq> UpgradeConstraintPolicyIgnore C \<longrightarrow>
            (\<exists>upgradePredicate.
                SuccessorsPredicate C (spec_PackageName ext) ib = Inr upgradePredicate \<and>
                upgradePredicate b)"
    using cand unfolding unfold[of b] by blast+
  have first: "b = hd (sort_SliceStable (catalogsort_ByDeprecated C) ?byVersion)"
    using s by simp
  have nd: "\<not> IsDeprecated C b \<longrightarrow> b = hd ?nd"
  proof
    assume n: "\<not> IsDeprecated C b"
    show "b = hd ?nd"
    proof (cases ?nd)
      case Nil
      then have "?dep = b # others" using split by simp
      then have "b \<in> set ?dep" by simp
      then show ?thesis using n by simp
    next
      case (Cons x xs)
      then show ?thesis using split by simp
    qed
  qed
  have dep: "IsDeprecated C b \<longrightarrow>
               (\<forall>c \<in> set allBundles. candidate C ext installedBundle c \<longrightarrow> IsDeprecated C c)"
  proof (intro impI ballI)
    fix x assume d: "IsDeprecated C b"
      and x: "x \<in> set allBundles" "candidate C ext installedBundle x"
    show "IsDeprecated C x"
    proof (rule ccontr)
      assume n: "\<not> IsDeprecated C x"
      have "x \<in> set ?byVersion" using x by (simp add: set_sort_SliceStable)
      then have "x \<in> set ?nd" using n by simp
      then obtain y ys where y: "?nd = y # ys" by (cases ?nd) auto
      then have "y = b" using split by simp
      moreover have "y \<in> set ?nd" using y by simp
      ultimately show False using d by simp
    qed
  qed
  show ?thesis
    apply (intro conjI)
    subgoal by (rule Resolve_never_panics)
    subgoal by (rule all)
    subgoal by (rule cand)
    subgoal by (rule pkg)
    subgoal by (rule chan)
    subgoal by (rule range)
    subgoal by (rule succ)
    subgoal by (rule first)
    subgoal by (rule nd)
    subgoal by (rule dep)
    subgoal by (rule unfold)
    done
qed

subsection \<open>The catalog instance, evaluated\<close>

lemma ex_resolver_fetches:
  "BundleProvider ex_resolver n = Inr ex_catalog"
  "InstalledBundleGetter ex_resolver ex_ext_ranged = Inr None"
  "InstalledBundleGetter ex_resolver (ex_ext ''installed'')
     = Inr (Some \<lparr> installed_Name = ''demo.v1'', installed_Version = ''1'' \<rparr>)"
  by (simp_all add: ex_resolver_def ex_bundles_def ex_installed_def ex_ext_ranged_def ex_ext_def)

lemma ex_Resolve_ranged:
  "Resolve ex_C ex_resolver (Some ex_ext_ranged) = Returns (Inr (''demo'', ''stable'', 2, False))"
proof -
  have p: "resolvePredicates ex_C ex_ext_ranged None =
             Inr [ex_withPackageName ''demo'', ex_inChannel ''stable'', ex_inRange 2]"
    by (simp add: resolvePredicates_def ex_ext_ranged_def ex_ext_def ex_C_def ex_constraint_def)
  have f: "catalogfilter_Filter ex_catalog
             (catalogfilter_And [ex_withPackageName ''demo'', ex_inChannel ''stable'', ex_inRange 2])
           = [(''demo'', ''stable'', 3, True), (''demo'', ''stable'', 2, False)]"
    by (simp add: catalogfilter_Filter_def catalogfilter_And_def ex_catalog_def
          ex_withPackageName_def ex_inChannel_def ex_inRange_def)
  have pk: "spec_PackageName ex_ext_ranged = ''demo''"
    by (simp add: ex_ext_ranged_def ex_ext_def)
  show ?thesis
    unfolding Resolve_def
    by (simp add: ex_resolver_fetches p f pk Let_def)
       (simp add: ex_resolver_def sort_SliceStable_def catalogsort_ByDeprecated_def ex_C_def
          ex_byVersion_def ex_deprecated_def)
qed

lemma ex_Resolve_installed:
  "Resolve ex_C ex_resolver (Some (ex_ext ''installed''))
     = Returns (Inr (''demo'', ''stable'', 3, True))"
proof -
  have p: "resolvePredicates ex_C (ex_ext ''installed'')
             (Some \<lparr> installed_Name = ''demo.v1'', installed_Version = ''1'' \<rparr>) =
             Inr [ex_withPackageName ''demo'', ex_successorOf1]"
    by (simp add: resolvePredicates_def ex_ext_def ex_C_def ex_successors_def)
  have f: "catalogfilter_Filter ex_catalog
             (catalogfilter_And [ex_withPackageName ''demo'', ex_successorOf1])
           = [(''demo'', ''stable'', 3, True)]"
    by (simp add: catalogfilter_Filter_def catalogfilter_And_def ex_catalog_def
          ex_withPackageName_def ex_successorOf1_def)
  have pk: "spec_PackageName (ex_ext ''installed'') = ''demo''"
    by (simp add: ex_ext_def)
  have nv: "NewVersion ex_C ''1'' = Inr ''1''" by (simp add: ex_C_def ex_newVersion_def)
  show ?thesis
    unfolding Resolve_def
    by (simp add: ex_resolver_fetches p f pk nv Let_def)
       (simp add: ex_resolver_def sort_SliceStable_def)
qed

theorem resolve_prefers_non_deprecated_witness:
  "BundleProvider ex_resolver (spec_PackageName ex_ext_ranged) = Inr ex_catalog \<and>
   InstalledBundleGetter ex_resolver ex_ext_ranged = Inr None \<and>
   Resolve ex_C ex_resolver (Some ex_ext_ranged) = Returns (Inr (''demo'', ''stable'', 2, False)) \<and>
   spec_Channel ex_ext_ranged = ''stable'' \<and> spec_Version ex_ext_ranged = ''>=2'' \<and>
   (''demo'', ''stable'', 2, False) \<in> set ex_catalog \<and>
   WithPackageName ex_C (spec_PackageName ex_ext_ranged) (''demo'', ''stable'', 2, False) \<and>
   InChannel ex_C (spec_Channel ex_ext_ranged) (''demo'', ''stable'', 2, False) \<and>
   \<not> candidate ex_C ex_ext_ranged None (''other'', ''stable'', 9, False) \<and>
   \<not> candidate ex_C ex_ext_ranged None (''demo'', ''beta'', 8, False) \<and>
   \<not> candidate ex_C ex_ext_ranged None (''demo'', ''stable'', 1, False) \<and>
   candidate ex_C ex_ext_ranged None (''demo'', ''stable'', 3, True) \<and>
   IsDeprecated ex_C (''demo'', ''stable'', 3, True) \<and>
   \<not> IsDeprecated ex_C (''demo'', ''stable'', 2, False) \<and>
   (''demo'', ''stable'', 2, False) =
     hd (filter (\<lambda>c. \<not> IsDeprecated ex_C c)
           (sort_SliceStable (ByVersion ex_C)
              (filter (candidate ex_C ex_ext_ranged None) ex_catalog))) \<and>
   InstalledBundleGetter ex_resolver (ex_ext ''installed'')
     = Inr (Some \<lparr> installed_Name = ''demo.v1'', installed_Version = ''1'' \<rparr>) \<and>
   Resolve ex_C ex_resolver (Some (ex_ext ''installed''))
     = Returns (Inr (''demo'', ''stable'', 3, True)) \<and>
   \<not> candidate ex_C (ex_ext ''installed'')
       (Some \<lparr> installed_Name = ''demo.v1'', installed_Version = ''1'' \<rparr>)
       (''demo'', ''stable'', 2, False) \<and>
   (''demo'', ''stable'', 3, True) =
     hd (sort_SliceStable (catalogsort_ByDeprecated ex_C)
           (sort_SliceStable (ByVersion ex_C)
              (filter (candidate ex_C (ex_ext ''installed'')
                         (Some \<lparr> installed_Name = ''demo.v1'', installed_Version = ''1'' \<rparr>))
                      ex_catalog)))"
proof -
  note h1 = ex_resolver_fetches(1)[of "spec_PackageName ex_ext_ranged"]
  note h2 = ex_resolver_fetches(2)
  note h3 = ex_Resolve_ranged
  note t = resolve_prefers_non_deprecated[OF h1 h2 h3]
  have ch: "spec_Channel ex_ext_ranged = ''stable''" "spec_Version ex_ext_ranged = ''>=2''"
    by (simp_all add: ex_ext_ranged_def)
  have out: "\<not> candidate ex_C ex_ext_ranged None (''other'', ''stable'', 9, False)"
    "\<not> candidate ex_C ex_ext_ranged None (''demo'', ''beta'', 8, False)"
    "\<not> candidate ex_C ex_ext_ranged None (''demo'', ''stable'', 1, False)"
    "candidate ex_C ex_ext_ranged None (''demo'', ''stable'', 3, True)"
    by (simp_all add: candidate_def ex_ext_ranged_def ex_ext_def ex_C_def ex_constraint_def
          ex_withPackageName_def ex_inChannel_def ex_inRange_def)
  have dp: "IsDeprecated ex_C (''demo'', ''stable'', 3, True)"
    "\<not> IsDeprecated ex_C (''demo'', ''stable'', 2, False)"
    by (simp_all add: ex_C_def ex_deprecated_def)
  have ch': "spec_Channel ex_ext_ranged \<noteq> []" by (simp add: ch)
  note k1 = ex_resolver_fetches(1)[of "spec_PackageName (ex_ext ''installed'')"]
  note k2 = ex_resolver_fetches(3)
  note k3 = ex_Resolve_installed
  note u = resolve_prefers_non_deprecated[OF k1 k2 k3]
  have notsucc: "\<not> candidate ex_C (ex_ext ''installed'')
       (Some \<lparr> installed_Name = ''demo.v1'', installed_Version = ''1'' \<rparr>)
       (''demo'', ''stable'', 2, False)"
    by (simp add: candidate_def ex_ext_def ex_C_def ex_successors_def ex_successorOf1_def)
  have ranged: "(''demo'', ''stable'', 2, False) \<in> set ex_catalog \<and>
      WithPackageName ex_C (spec_PackageName ex_ext_ranged) (''demo'', ''stable'', 2, False) \<and>
      InChannel ex_C (spec_Channel ex_ext_ranged) (''demo'', ''stable'', 2, False) \<and>
      (''demo'', ''stable'', 2, False) =
        hd (filter (\<lambda>c. \<not> IsDeprecated ex_C c)
              (sort_SliceStable (ByVersion ex_C)
                 (filter (candidate ex_C ex_ext_ranged None) ex_catalog)))"
    using t ch' dp(2) by blast
  have upgraded: "(''demo'', ''stable'', 3, True) =
     hd (sort_SliceStable (catalogsort_ByDeprecated ex_C)
           (sort_SliceStable (ByVersion ex_C)
              (filter (candidate ex_C (ex_ext ''installed'')
                         (Some \<lparr> installed_Name = ''demo.v1'', installed_Version = ''1'' \<rparr>))
                      ex_catalog)))"
    using u by blast
  show ?thesis
    using h1 h2 h3 ch out dp k2 k3 notsucc ranged upgraded by blast
qed

text \<open>
  C8, as stated, fails.  The extension \<^verbatim>\<open>installed\<close> names the package \<^verbatim>\<open>demo\<close> and
  gives neither a channel nor a version range; version \<^verbatim>\<open>1\<close> is installed and the
  upgrade constraint policy is not Ignore.  The bundle of version \<^verbatim>\<open>2\<close> has the package
  name and is not deprecated, so it passes every filter the specification names.  Yet
  \<^verbatim>\<open>Resolve\<close> returns the deprecated bundle of version \<^verbatim>\<open>3\<close>, the only successor of the
  installed bundle.
\<close>

theorem resolve_returns_deprecated_counterexample:
  "BundleProvider ex_resolver (spec_PackageName (ex_ext ''installed'')) = Inr ex_catalog \<and>
   spec_Channel (ex_ext ''installed'') = [] \<and> spec_Version (ex_ext ''installed'') = [] \<and>
   (''demo'', ''stable'', 2, False) \<in> set ex_catalog \<and>
   WithPackageName ex_C (spec_PackageName (ex_ext ''installed'')) (''demo'', ''stable'', 2, False) \<and>
   \<not> IsDeprecated ex_C (''demo'', ''stable'', 2, False) \<and>
   IsDeprecated ex_C (''demo'', ''stable'', 3, True) \<and>
   Resolve ex_C ex_resolver (Some (ex_ext ''installed''))
     = Returns (Inr (''demo'', ''stable'', 3, True))"
  by (simp add: ex_resolver_fetches ex_Resolve_installed)
     (simp add: ex_ext_def ex_catalog_def ex_C_def ex_withPackageName_def ex_deprecated_def)

end
